theory Spec2Isabelle
  imports Complex_Main "HOL-Library.Word" "HOL-Library.Sublist"
begin

section \<open>The runtime's values, buffers and events\<close>

text \<open>
  gelfie is a GELF client: \<^verbatim>\<open>lib/index.js\<close> composes a message and hands it to a
  transport, \<^verbatim>\<open>lib/udp.js\<close> sends it as one datagram or as chunked datagrams, and
  \<^verbatim>\<open>lib/tcp.js\<close> writes it to a stream with a bounded backlog. The embedding keeps
  the three classes as records, their methods as functions that take the object and return
  the list of events the call causes (and the updated object where the method assigns a
  field), and every throw as a value.
\<close>

type_synonym byte = "8 word"
type_synonym Buffer = "byte list"

text \<open>
  A JavaScript number is a double: a finite value (a rational here, which covers every
  finite double), or one of the three special values.
\<close>

datatype js_number = Num rat | NaN | PosInfinity | NegInfinity

datatype js_value =
    Undefined
  | Null
  | Boolean bool
  | Number js_number
  | String string
  | NativeError string string string
  | Object "(string \<times> js_value) list"

datatype error = Error string | TypeError string | RangeError string

text \<open>\<^verbatim>\<open>typeof v\<close>.\<close>

fun typeof :: "js_value \<Rightarrow> string" where
  "typeof Undefined = ''undefined''"
| "typeof Null = ''object''"
| "typeof (Boolean b) = ''boolean''"
| "typeof (Number n) = ''number''"
| "typeof (String s) = ''string''"
| "typeof (NativeError name msg stack) = ''object''"
| "typeof (Object props) = ''object''"

text \<open>
  Reading a property: \<^verbatim>\<open>undefined\<close> when the object has no such own property. A native
  error shows \<^verbatim>\<open>name\<close>, \<^verbatim>\<open>message\<close> and \<^verbatim>\<open>stack\<close>, none of them enumerable.
\<close>

fun get_prop :: "js_value \<Rightarrow> string \<Rightarrow> js_value" where
  "get_prop (Object props) key = (case map_of props key of None \<Rightarrow> Undefined | Some v \<Rightarrow> v)"
| "get_prop (NativeError name msg stack) key =
     (if key = ''name'' then String name else if key = ''message'' then String msg
      else if key = ''stack'' then String stack else Undefined)"
| "get_prop v key = Undefined"

text \<open>\<^verbatim>\<open>Object.keys(v)\<close>: the own enumerable property names, in insertion order.\<close>

fun Object_keys :: "js_value \<Rightarrow> string list" where
  "Object_keys (Object props) = map fst props"
| "Object_keys v = []"

text \<open>
  \<^verbatim>\<open>obj[key] = v\<close> on a property list: an existing property keeps its place, a new one
  goes last.
\<close>

fun set_prop :: "(string \<times> js_value) list \<Rightarrow> string \<Rightarrow> js_value \<Rightarrow> (string \<times> js_value) list" where
  "set_prop [] key v = [(key, v)]"
| "set_prop ((k, w) # props) key v =
     (if k = key then (k, v) # props else (k, w) # set_prop props key v)"

text \<open>A destructuring default: it applies exactly when the property is \<^verbatim>\<open>undefined\<close>.\<close>

definition with_default :: "js_value \<Rightarrow> js_value \<Rightarrow> js_value" where
  "with_default v d = (if v = Undefined then d else v)"

text \<open>
  \<^verbatim>\<open>Number.isSafeInteger\<close> and \<^verbatim>\<open>Number.isFinite\<close> (false for every value that is not a
  number), and the comparisons of a number with a finite constant (false for \<^verbatim>\<open>NaN\<close>).
  The largest safe integer is \<^verbatim>\<open>2^53 - 1 = 9007199254740991\<close>.
\<close>

fun isSafeInteger :: "js_value \<Rightarrow> bool" where
  "isSafeInteger (Number (Num r)) = (of_int \<lfloor>r\<rfloor> = r \<and> \<bar>r\<bar> \<le> 9007199254740991)"
| "isSafeInteger v = False"

fun isFinite :: "js_value \<Rightarrow> bool" where
  "isFinite (Number (Num r)) = True"
| "isFinite v = False"

fun js_le_const :: "js_number \<Rightarrow> rat \<Rightarrow> bool" where
  "js_le_const (Num r) c = (r \<le> c)"
| "js_le_const NegInfinity c = True"
| "js_le_const PosInfinity c = False"
| "js_le_const NaN c = False"

fun js_lt_const :: "js_number \<Rightarrow> rat \<Rightarrow> bool" where
  "js_lt_const (Num r) c = (r < c)"
| "js_lt_const NegInfinity c = True"
| "js_lt_const PosInfinity c = False"
| "js_lt_const NaN c = False"

fun js_ge_const :: "js_number \<Rightarrow> rat \<Rightarrow> bool" where
  "js_ge_const (Num r) c = (r \<ge> c)"
| "js_ge_const PosInfinity c = True"
| "js_ge_const NegInfinity c = False"
| "js_ge_const NaN c = False"

text \<open>The natural number a validated safe non-negative integer stands for.\<close>

fun to_nat :: "js_number \<Rightarrow> nat" where
  "to_nat (Num r) = nat \<lfloor>r\<rfloor>"
| "to_nat n = 0"

text \<open>
  What a call does to the world, in order: a datagram handed to the UDP socket (with or
  without a completion callback), the socket being closed, bytes written to the TCP socket,
  the TCP socket being ended, an error published on the client's error channel
  (\<^verbatim>\<open>client.emit('error', err)\<close>), and an exception leaving the call (for an async
  function: the rejection of its promise).
\<close>

datatype event =
    SocketSend Buffer js_number string bool
  | SocketClose
  | SocketWrite Buffer
  | SocketEnd
  | Emit error
  | Throws error

text \<open>\<^verbatim>\<open>Buffer.from(string)\<close>: the bytes of the string (a HOL string is a list of bytes).\<close>

definition Buffer_from :: "string \<Rightarrow> Buffer" where
  "Buffer_from s = map of_char s"

text \<open>
  \<^verbatim>\<open>Buffer.allocUnsafe(size)\<close>: a buffer of \<^verbatim>\<open>size\<close> bytes whose contents are
  whatever the memory held, given here by \<^verbatim>\<open>mem\<close>.
\<close>

definition allocUnsafe :: "(nat \<Rightarrow> byte) \<Rightarrow> nat \<Rightarrow> Buffer" where
  "allocUnsafe mem n = map mem [0..<n]"

text \<open>
  \<^verbatim>\<open>source.copy(target, targetStart, sourceStart, sourceEnd)\<close> of Node's Buffer, for
  non-negative arguments: nothing is copied when the target offset is past the target or
  the source range is empty; a source start past the source raises; otherwise the range is
  cut to what the target has room for and to what the source holds, and written over the
  target in place. The result is the target afterwards.
\<close>

definition Buffer_copy :: "Buffer \<Rightarrow> Buffer \<Rightarrow> nat \<Rightarrow> nat \<Rightarrow> nat \<Rightarrow> error + Buffer" where
  "Buffer_copy source target targetStart sourceStart sourceEnd =
     (if targetStart \<ge> length target \<or> sourceStart \<ge> sourceEnd then Inr target
      else if sourceStart > length source then Inl (RangeError ''ERR_OUT_OF_RANGE'')
      else
        let nb = min (min (sourceEnd - sourceStart) (length target - targetStart))
                     (length source - sourceStart)
        in Inr (take targetStart target @ take nb (drop sourceStart source)
                @ drop (targetStart + nb) target))"

text \<open>
  \<^verbatim>\<open>Math.ceil(a / b)\<close> for a length \<^verbatim>\<open>a\<close> and a positive integer \<^verbatim>\<open>b\<close>. (The
  double division is exact enough for lengths below \<^verbatim>\<open>2^53\<close>; \<^verbatim>\<open>b = 0\<close> is
  excluded by the constructor's check of \<^verbatim>\<open>bufferSize\<close>.)
\<close>

definition ceil_div :: "nat \<Rightarrow> nat \<Rightarrow> nat" where
  "ceil_div a b = (a + b - 1) div b"

text \<open>
  What the runtime supplies to the library: \<^verbatim>\<open>JSON.stringify\<close>, \<^verbatim>\<open>zlib.deflate\<close>,
  \<^verbatim>\<open>String\<close>, the stream of bytes behind \<^verbatim>\<open>crypto.randomBytes\<close>, the contents of
  the memory behind the k-th \<^verbatim>\<open>Buffer.allocUnsafe\<close> of one call, the host name and
  the clock.
\<close>

record runtime =
  JSON_stringify :: "js_value \<Rightarrow> string"
  Zlib_deflate :: "string \<Rightarrow> Buffer"
  to_String :: "js_value \<Rightarrow> string"
  random :: "nat \<Rightarrow> byte"
  uninitialized :: "nat \<Rightarrow> nat \<Rightarrow> byte"
  Os_hostname :: string
  Date_now :: rat

definition randomBytes :: "runtime \<Rightarrow> nat \<Rightarrow> Buffer" where
  "randomBytes rt n = map (random rt) [0..<n]"

section \<open>lib/udp.js\<close>

definition kChunkHeaderSize :: nat where "kChunkHeaderSize = 12"
definition kDefaultBufSize :: nat where "kDefaultBufSize = 1400"
definition kMagicByte0 :: byte where "kMagicByte0 = 0x1e"
definition kMagicByte1 :: byte where "kMagicByte1 = 0x0f"
definition kMaxChunks :: nat where "kMaxChunks = 128"
definition kMessageIdBytes :: nat where "kMessageIdBytes = 8"
definition kOffsetMagicByte0 :: nat where "kOffsetMagicByte0 = 0"
definition kOffsetMagicByte1 :: nat where "kOffsetMagicByte1 = 1"
definition kOffsetMessageId :: nat where "kOffsetMessageId = 2"
definition kOffsetSequenceNumber :: nat where "kOffsetSequenceNumber = 10"
definition kOffsetSequenceCount :: nat where "kOffsetSequenceCount = 11"
definition kOffsetPayload :: nat where "kOffsetPayload = 12"

text \<open>
  The fields of a \<^verbatim>\<open>UdpTransport\<close>. \<^verbatim>\<open>udp_client\<close> and \<^verbatim>\<open>udp_socket\<close> are
  \<^verbatim>\<open>None\<close> where the source holds \<^verbatim>\<open>null\<close>; the socket itself is a handle.
\<close>

record UdpTransport =
  bufferSize :: nat
  udp_client :: "unit option"
  compression :: string
  udp_host :: string
  udp_port :: js_number
  udp_socket :: "unit option"
  reuseBuffer :: bool

definition supportedCompression :: "string set" where
  "supportedCompression = {''none'', ''zlib''}"

text \<open>The constructor: the checks in the source's order, then the fields.\<close>

definition UdpTransport_constructor :: "js_value \<Rightarrow> unit option \<Rightarrow> error + UdpTransport" where
  "UdpTransport_constructor options client =
     (let compression' = with_default (get_prop options ''compression'') (String ''zlib'');
          bufferSize' = with_default (get_prop options ''bufferSize'')
                         (Number (Num (of_nat kDefaultBufSize)));
          graylogHost = with_default (get_prop options ''graylogHost'') Undefined;
          graylogPort = with_default (get_prop options ''graylogPort'') Undefined;
          reuseBuffer' = with_default (get_prop options ''reuseBuffer'') (Boolean True)
      in case bufferSize' of
           Number bsize \<Rightarrow>
             if js_le_const bsize 0 \<or> \<not> isSafeInteger bufferSize' then
               Inl (RangeError ''bufferSize must be a safe positive integer'')
             else if js_le_const bsize (of_nat kChunkHeaderSize) then
               Inl (RangeError ''bufferSize must be larger than 12 to support chunking'')
             else
               (case compression' of
                  String cname \<Rightarrow>
                    if cname \<notin> supportedCompression then
                      Inl (Error (''unsupported compression type: '' @ cname))
                    else
                      (case graylogHost of
                         String host \<Rightarrow>
                           (case graylogPort of
                              Number port \<Rightarrow>
                                (case reuseBuffer' of
                                   Boolean reuse \<Rightarrow>
                                     Inr \<lparr>bufferSize = to_nat bsize, udp_client = client,
                                          compression = cname, udp_host = host, udp_port = port,
                                          udp_socket = None, reuseBuffer = reuse\<rparr>
                                 | _ \<Rightarrow> Inl (TypeError ''reuseBuffer must be a boolean''))
                            | _ \<Rightarrow> Inl (TypeError ''graylogPort must be a number''))
                       | _ \<Rightarrow> Inl (TypeError ''graylogHost must be a string''))
                | _ \<Rightarrow> Inl (TypeError ''compression must be a string''))
         | _ \<Rightarrow> Inl (TypeError ''bufferSize must be a number''))"

text \<open>\<^verbatim>\<open>connect()\<close> creates the socket; \<^verbatim>\<open>close()\<close> returns at once without one.\<close>

definition UdpTransport_connect :: "UdpTransport \<Rightarrow> UdpTransport \<times> event list" where
  "UdpTransport_connect t = (t\<lparr>udp_socket := Some ()\<rparr>, [])"

definition UdpTransport_close :: "UdpTransport \<Rightarrow> UdpTransport \<times> event list" where
  "UdpTransport_close t =
     (case udp_socket t of
        None \<Rightarrow> (t, [])
      | Some _ \<Rightarrow> (t\<lparr>udp_client := None, udp_socket := None\<rparr>, [SocketClose]))"

text \<open>The three sizes \<^verbatim>\<open>send\<close> computes for a message that needs chunking.\<close>

definition maxDataPerChunk :: "UdpTransport \<Rightarrow> nat" where
  "maxDataPerChunk t = bufferSize t - kChunkHeaderSize"

definition numChunks :: "UdpTransport \<Rightarrow> nat \<Rightarrow> nat" where
  "numChunks t byteLength = ceil_div byteLength (maxDataPerChunk t)"

definition chunkSize :: "UdpTransport \<Rightarrow> nat \<Rightarrow> nat" where
  "chunkSize t byteLength =
     (let totalHeaderSize = numChunks t byteLength * kChunkHeaderSize
      in ceil_div (byteLength + totalHeaderSize) (numChunks t byteLength))"

text \<open>
  The header both branches write into a fresh buffer: the two magic bytes, the message id
  from offset 2, the chunk count at offset 11. A store into a typed array keeps the value
  modulo 256 and ignores an index past the end, as \<^verbatim>\<open>xs[i := v]\<close> does.
\<close>

definition write_header :: "Buffer \<Rightarrow> Buffer \<Rightarrow> nat \<Rightarrow> error + Buffer" where
  "write_header buf msgId count =
     (let buf = buf[kOffsetMagicByte0 := kMagicByte0];
          buf = buf[kOffsetMagicByte1 := kMagicByte1]
      in case Buffer_copy msgId buf kOffsetMessageId 0 (length msgId) of
           Inl e \<Rightarrow> Inl e
         | Inr buf \<Rightarrow> Inr (buf[kOffsetSequenceCount := of_nat count]))"

text \<open>
  \<^verbatim>\<open>_send(data, chunk, sequenceId, bytesToSend)\<close>, here \<^verbatim>\<open>u_send\<close> (a name cannot
  begin with an underscore), fills the shared chunk and hands it to the socket with a
  completion callback. The sizes are lengths; \<^verbatim>\<open>send\<close> calls it with
  \<^verbatim>\<open>bytesToSend = data.byteLength\<close> and the callback only lowers \<^verbatim>\<open>bytesToSend\<close>, so
  \<^verbatim>\<open>data.byteLength - bytesToSend\<close> is never negative. The callback is a closure over the arguments
  and \<^verbatim>\<open>bytesToCopy\<close>; here it is the value \<^verbatim>\<open>SendCallback\<close>, run by
  \<^verbatim>\<open>send_callback\<close> when the runtime reports the write's outcome.
\<close>

datatype callback = SendCallback Buffer Buffer nat nat nat

definition u_send ::
  "UdpTransport \<Rightarrow> Buffer \<Rightarrow> Buffer \<Rightarrow> nat \<Rightarrow> nat \<Rightarrow> event list \<times> callback option" where
  "u_send t data chunk sequenceId bytesToSend =
     (let bytesToCopy = min bytesToSend (length chunk - kChunkHeaderSize);
          dataStart = length data - bytesToSend;
          dataEnd = dataStart + bytesToCopy;
          chunk = chunk[kOffsetSequenceNumber := of_nat sequenceId]
      in case Buffer_copy data chunk kOffsetPayload dataStart dataEnd of
           Inl e \<Rightarrow> ([Throws e], None)
         | Inr chunk \<Rightarrow>
             (case udp_socket t of
                None \<Rightarrow> ([Throws (TypeError ''Cannot read property send of null'')], None)
              | Some _ \<Rightarrow>
                  ([SocketSend chunk (udp_port t) (udp_host t) True],
                   Some (SendCallback data chunk sequenceId bytesToSend bytesToCopy))))"

fun send_callback ::
  "UdpTransport \<Rightarrow> callback \<Rightarrow> error option \<Rightarrow> event list \<times> callback option" where
  "send_callback t (SendCallback data chunk sequenceId bytesToSend bytesToCopy) (Some err) =
     (case udp_client t of
        None \<Rightarrow> ([Throws (TypeError ''Cannot read property emit of null'')], None)
      | Some _ \<Rightarrow> ([Emit err], None))"
| "send_callback t (SendCallback data chunk sequenceId bytesToSend bytesToCopy) None =
     (let remainingBytes = bytesToSend - bytesToCopy
      in if remainingBytes > 0 then u_send t data chunk (sequenceId + 1) remainingBytes
         else ([], None))"

text \<open>
  The runtime completes the writes one after the other: \<^verbatim>\<open>outcomes\<close> lists what it
  passes to the successive callbacks (\<^verbatim>\<open>None\<close> for success). When the list runs out the
  last write is still in flight, and its callback is returned.
\<close>

fun run_callbacks ::
  "UdpTransport \<Rightarrow> callback option \<Rightarrow> error option list \<Rightarrow> event list \<times> callback option" where
  "run_callbacks t None outcomes = ([], None)"
| "run_callbacks t (Some cb) [] = ([], Some cb)"
| "run_callbacks t (Some cb) (err # outcomes) =
     (let (evs, cb') = send_callback t cb err;
          (evs', cb'') = run_callbacks t cb' outcomes
      in (evs @ evs', cb''))"

text \<open>
  \<^verbatim>\<open>this._send(msg, buf, 0, byteLength)\<close> followed by the callbacks the runtime has run
  so far.
\<close>

definition run_send ::
  "UdpTransport \<Rightarrow> Buffer \<Rightarrow> Buffer \<Rightarrow> nat \<Rightarrow> nat \<Rightarrow> error option list
     \<Rightarrow> event list \<times> callback option" where
  "run_send t data chunk sequenceId bytesToSend outcomes =
     (let (evs, cb) = u_send t data chunk sequenceId bytesToSend;
          (evs', cb') = run_callbacks t cb outcomes
      in (evs @ evs', cb'))"

text \<open>
  The branch that does not reuse the buffer. \<^verbatim>\<open>loop_buffer\<close> is the buffer one iteration
  of its loop allocates and fills; \<^verbatim>\<open>send_loop\<close> is the loop from \<^verbatim>\<open>sequenceId\<close> on.
\<close>

definition loop_buffer ::
  "runtime \<Rightarrow> Buffer \<Rightarrow> Buffer \<Rightarrow> nat \<Rightarrow> nat \<Rightarrow> nat \<Rightarrow> nat \<Rightarrow> error + Buffer" where
  "loop_buffer rt msg msgId maxData count csize sequenceId =
     (let buf = allocUnsafe (uninitialized rt sequenceId) csize;
          msgStart = sequenceId * maxData;
          msgEnd = min (length msg) (msgStart + maxData)
      in case write_header buf msgId count of
           Inl e \<Rightarrow> Inl e
         | Inr buf \<Rightarrow>
             Buffer_copy msg (buf[kOffsetSequenceNumber := of_nat sequenceId])
               kOffsetPayload msgStart msgEnd)"

function send_loop ::
  "UdpTransport \<Rightarrow> runtime \<Rightarrow> Buffer \<Rightarrow> Buffer \<Rightarrow> nat \<Rightarrow> nat \<Rightarrow> nat \<Rightarrow> nat \<Rightarrow> event list" where
  "send_loop t rt msg msgId maxData count csize sequenceId =
     (if sequenceId < count then
        (case loop_buffer rt msg msgId maxData count csize sequenceId of
           Inl e \<Rightarrow> [Throws e]
         | Inr buf \<Rightarrow>
             (case udp_socket t of
                None \<Rightarrow> [Throws (TypeError ''Cannot read property send of null'')]
              | Some _ \<Rightarrow>
                  SocketSend buf (udp_port t) (udp_host t) False
                  # send_loop t rt msg msgId maxData count csize (sequenceId + 1)))
      else [])"
  by pat_completeness auto
termination
  by (relation "measure (\<lambda>(t, rt, msg, msgId, maxData, count, csize, sequenceId). count - sequenceId)")
     auto

text \<open>The bytes \<^verbatim>\<open>send\<close> puts on the wire for a message: \<^verbatim>\<open>msg\<close> in the source.\<close>

definition serialized :: "UdpTransport \<Rightarrow> runtime \<Rightarrow> js_value \<Rightarrow> Buffer" where
  "serialized t rt message =
     (let json = JSON_stringify rt message
      in if compression t = ''zlib'' then Zlib_deflate rt json else Buffer_from json)"

text \<open>
  \<^verbatim>\<open>send(message)\<close>. The awaits of \<^verbatim>\<open>deflate\<close> and \<^verbatim>\<open>randomBytes\<close> are taken
  as done; the transport is the object as it is when the socket is used. \<^verbatim>\<open>outcomes\<close>
  are the results of the writes the runtime has completed, in order; only the branch that
  reuses the buffer passes a callback and reads them.
\<close>

definition UdpTransport_send ::
  "UdpTransport \<Rightarrow> runtime \<Rightarrow> js_value \<Rightarrow> error option list \<Rightarrow> event list \<times> callback option" where
  "UdpTransport_send t rt message outcomes =
     (let msg = serialized t rt message;
          byteLength = length msg
      in if byteLength \<le> bufferSize t then
           (case udp_socket t of
              None \<Rightarrow> ([Throws (TypeError ''Cannot read property send of null'')], None)
            | Some _ \<Rightarrow> ([SocketSend msg (udp_port t) (udp_host t) False], None))
         else if numChunks t byteLength > kMaxChunks then
           (case udp_client t of
              None \<Rightarrow> ([Throws (TypeError ''Cannot read property emit of null'')], None)
            | Some _ \<Rightarrow> ([Emit (Error ''message too large'')], None))
         else
           let msgId = randomBytes rt kMessageIdBytes
           in if reuseBuffer t then
                (case write_header (allocUnsafe (uninitialized rt 0) (chunkSize t byteLength))
                        msgId (numChunks t byteLength) of
                   Inl e \<Rightarrow> ([Throws e], None)
                 | Inr buf \<Rightarrow> run_send t msg buf 0 byteLength outcomes)
              else
                (send_loop t rt msg msgId (maxDataPerChunk t) (numChunks t byteLength)
                   (chunkSize t byteLength) 0, None))"

text \<open>The datagrams a list of events hands to the socket, in order.\<close>

fun datagrams :: "event list \<Rightarrow> Buffer list" where
  "datagrams [] = []"
| "datagrams (SocketSend buf p h c # evs) = buf # datagrams evs"
| "datagrams (_ # evs) = datagrams evs"

text \<open>
  The header fields of a chunked datagram as the wire format lays them out: magic bytes at
  0 and 1, message id at 2 to 9, sequence count at 11.
\<close>

definition has_header :: "Buffer \<Rightarrow> Buffer \<Rightarrow> nat \<Rightarrow> bool" where
  "has_header d msgId count \<longleftrightarrow>
     d ! kOffsetMagicByte0 = kMagicByte0 \<and> d ! kOffsetMagicByte1 = kMagicByte1 \<and>
     take kMessageIdBytes (drop kOffsetMessageId d) = msgId \<and>
     unat (d ! kOffsetSequenceCount) = count"

definition sequenceNumber :: "Buffer \<Rightarrow> nat" where
  "sequenceNumber d = unat (d ! kOffsetSequenceNumber)"

definition payload :: "Buffer \<Rightarrow> Buffer" where
  "payload d = drop kOffsetPayload d"

text \<open>
  The chunk \<^verbatim>\<open>_send\<close> hands to the socket: the shared chunk with the sequence number and
  the next slice of the data written over it.
\<close>

definition next_chunk :: "Buffer \<Rightarrow> Buffer \<Rightarrow> nat \<Rightarrow> nat \<Rightarrow> Buffer" where
  "next_chunk data chunk sequenceId bytesToSend =
     (let bytesToCopy = min bytesToSend (length chunk - kChunkHeaderSize);
          dataStart = length data - bytesToSend
      in case Buffer_copy data (chunk[kOffsetSequenceNumber := of_nat sequenceId])
                kOffsetPayload dataStart (dataStart + bytesToCopy) of
           Inl e \<Rightarrow> chunk
         | Inr r \<Rightarrow> r)"

text \<open>The writes that completed without an error before the first one that failed.\<close>

definition successes :: "error option list \<Rightarrow> nat" where
  "successes outcomes = length (takeWhile (\<lambda>err. err = None) outcomes)"

text \<open>The errors a list of events publishes on the error channel, and those it throws.\<close>

fun emitted :: "event list \<Rightarrow> error list" where
  "emitted [] = []"
| "emitted (Emit e # evs) = e # emitted evs"
| "emitted (_ # evs) = emitted evs"

fun thrown :: "event list \<Rightarrow> error list" where
  "thrown [] = []"
| "thrown (Throws e # evs) = e # thrown evs"
| "thrown (_ # evs) = thrown evs"

section \<open>lib/tcp.js\<close>

text \<open>
  The fields of a \<^verbatim>\<open>TcpTransport\<close>; \<^verbatim>\<open>close()\<close> sets \<^verbatim>\<open>backlog\<close>, \<^verbatim>\<open>socket\<close> and
  \<^verbatim>\<open>socketOptions\<close> to \<^verbatim>\<open>null\<close>.
\<close>

record TcpTransport =
  backlog :: "Buffer list option"
  canAcceptData :: bool
  tcp_client :: "unit option"
  tcp_host :: string
  maxBacklogSize :: nat
  tcp_port :: js_number
  tcp_socket :: "unit option"
  socketOptions :: "(string \<times> js_value) list option"

text \<open>\<^verbatim>\<open>{ ...v }\<close>: the own enumerable properties of a value.\<close>

fun spread :: "js_value \<Rightarrow> (string \<times> js_value) list" where
  "spread (Object props) = props"
| "spread v = []"

definition TcpTransport_constructor :: "js_value \<Rightarrow> unit option \<Rightarrow> error + TcpTransport" where
  "TcpTransport_constructor options client =
     (let graylogHost = with_default (get_prop options ''graylogHost'') Undefined;
          graylogPort = with_default (get_prop options ''graylogPort'') Undefined;
          maxBacklogSize' = with_default (get_prop options ''maxBacklogSize'')
                              (Number (Num 1024));
          socketOptions' = with_default (get_prop options ''socketOptions'') (Object [])
      in case graylogHost of
           String host \<Rightarrow>
             (case graylogPort of
                Number port \<Rightarrow>
                  (case maxBacklogSize' of
                     Number maxSize \<Rightarrow>
                       if js_lt_const maxSize 0 \<or> \<not> isSafeInteger maxBacklogSize' then
                         Inl (RangeError ''maxBacklogSize must be a safe integer >= 0'')
                       else if socketOptions' = Null \<or> typeof socketOptions' \<noteq> ''object'' then
                         Inl (TypeError ''socketOptions must be an object'')
                       else
                         Inr \<lparr>backlog = Some [], canAcceptData = True, tcp_client = client,
                              tcp_host = host, maxBacklogSize = to_nat maxSize,
                              tcp_port = port, tcp_socket = None,
                              socketOptions =
                                Some (set_prop (set_prop (spread socketOptions') ''port''
                                                  graylogPort) ''host'' graylogHost)\<rparr>
                   | _ \<Rightarrow> Inl (TypeError ''maxBacklogSize must be a number''))
              | _ \<Rightarrow> Inl (TypeError ''graylogPort must be a number''))
         | _ \<Rightarrow> Inl (TypeError ''graylogHost must be a string''))"

text \<open>\<^verbatim>\<open>connect()\<close> creates the socket and registers the handlers.\<close>

definition TcpTransport_connect :: "TcpTransport \<Rightarrow> TcpTransport \<times> event list" where
  "TcpTransport_connect t = (t\<lparr>tcp_socket := Some ()\<rparr>, [])"

definition TcpTransport_close :: "TcpTransport \<Rightarrow> TcpTransport \<times> event list" where
  "TcpTransport_close t =
     (let t = t\<lparr>tcp_client := None\<rparr>
      in case tcp_socket t of
           None \<Rightarrow> (t, [])
         | Some _ \<Rightarrow> (t\<lparr>backlog := None, tcp_socket := None, socketOptions := None\<rparr>,
                      [SocketEnd]))"

text \<open>The frame \<^verbatim>\<open>send\<close> builds: the JSON text and one NUL.\<close>

definition frame :: "runtime \<Rightarrow> js_value \<Rightarrow> Buffer" where
  "frame rt message = Buffer_from (JSON_stringify rt message @ [CHR 0x00])"

text \<open>
  \<^verbatim>\<open>send(message)\<close>. \<^verbatim>\<open>accepted\<close> is what \<^verbatim>\<open>socket.write\<close> returns if this call
  writes.
\<close>

definition TcpTransport_send ::
  "TcpTransport \<Rightarrow> runtime \<Rightarrow> bool \<Rightarrow> js_value \<Rightarrow> TcpTransport \<times> event list" where
  "TcpTransport_send t rt accepted message =
     (let msg = frame rt message
      in if canAcceptData t then
           (case tcp_socket t of
              None \<Rightarrow> (t, [Throws (TypeError ''Cannot read property write of null'')])
            | Some _ \<Rightarrow> (t\<lparr>canAcceptData := accepted\<rparr>, [SocketWrite msg]))
         else
           (case backlog t of
              None \<Rightarrow> (t, [Throws (TypeError ''Cannot read property length of null'')])
            | Some queue \<Rightarrow>
                if length queue < maxBacklogSize t then
                  (t\<lparr>backlog := Some (queue @ [msg])\<rparr>, [])
                else
                  (case tcp_client t of
                     None \<Rightarrow> (t, [Throws (TypeError ''Cannot read property emit of null'')])
                   | Some _ \<Rightarrow> (t, [Emit (Error ''too many messages buffered'')]))))"

text \<open>
  The loop of the drain handler on the backlog: while the stream accepts data and the
  backlog is not empty, shift the first entry and write it. \<^verbatim>\<open>accepts i\<close> is what the
  i-th write of this run returns. The result is the flag, the backlog left and the writes.
\<close>

fun drain_loop ::
  "(nat \<Rightarrow> bool) \<Rightarrow> nat \<Rightarrow> bool \<Rightarrow> Buffer list \<Rightarrow> bool \<times> Buffer list \<times> event list" where
  "drain_loop accepts i can [] = (can, [], [])"
| "drain_loop accepts i can (data # queue) =
     (if can then
        (let (can', queue', evs) = drain_loop accepts (i + 1) (accepts i) queue
         in (can', queue', SocketWrite data # evs))
      else (can, data # queue, []))"

text \<open>The handler of the socket's drain event.\<close>

definition TcpTransport_drain ::
  "TcpTransport \<Rightarrow> (nat \<Rightarrow> bool) \<Rightarrow> TcpTransport \<times> event list" where
  "TcpTransport_drain t accepts =
     (let t = t\<lparr>canAcceptData := True\<rparr>
      in case backlog t of
           None \<Rightarrow> (t, [Throws (TypeError ''Cannot read property length of null'')])
         | Some queue \<Rightarrow>
             if queue = [] then (t, [])
             else
               (case tcp_socket t of
                  None \<Rightarrow> (t\<lparr>backlog := Some (tl queue)\<rparr>,
                             [Throws (TypeError ''Cannot read property write of null'')])
                | Some _ \<Rightarrow>
                    (let (can, queue', evs) = drain_loop accepts 0 True queue
                     in (t\<lparr>canAcceptData := can, backlog := Some queue'\<rparr>, evs))))"

text \<open>The buffers a list of events writes to the stream, in order.\<close>

fun written :: "event list \<Rightarrow> Buffer list" where
  "written [] = []"
| "written (SocketWrite data # evs) = data # written evs"
| "written (_ # evs) = written evs"

text \<open>
  A run of the transport: calls of \<^verbatim>\<open>send\<close> and drain events in some order. \<^verbatim>\<open>accepts k\<close>
  is what the k-th write on the socket returns, \<^verbatim>\<open>k\<close> counts the writes made so far.
\<close>

datatype tcp_op = Send js_value | Drain

fun tcp_step ::
  "runtime \<Rightarrow> (nat \<Rightarrow> bool) \<Rightarrow> nat \<Rightarrow> TcpTransport \<Rightarrow> tcp_op \<Rightarrow> TcpTransport \<times> event list" where
  "tcp_step rt accepts k t (Send message) = TcpTransport_send t rt (accepts k) message"
| "tcp_step rt accepts k t Drain = TcpTransport_drain t (\<lambda>i. accepts (k + i))"

fun tcp_run ::
  "runtime \<Rightarrow> (nat \<Rightarrow> bool) \<Rightarrow> nat \<Rightarrow> TcpTransport \<Rightarrow> tcp_op list \<Rightarrow> TcpTransport \<times> event list" where
  "tcp_run rt accepts k t [] = (t, [])"
| "tcp_run rt accepts k t (op # ops) =
     (let (t', evs) = tcp_step rt accepts k t op;
          (t'', evs') = tcp_run rt accepts (k + length (written evs)) t' ops
      in (t'', evs @ evs'))"

text \<open>The frames of the \<^verbatim>\<open>send\<close> calls of a run, in call order.\<close>

fun sent_frames :: "runtime \<Rightarrow> tcp_op list \<Rightarrow> Buffer list" where
  "sent_frames rt [] = []"
| "sent_frames rt (Send message # ops) = frame rt message # sent_frames rt ops"
| "sent_frames rt (Drain # ops) = sent_frames rt ops"

text \<open>
  The states of a connected transport that \<^verbatim>\<open>send\<close> and the drain handler move between:
  socket, client and backlog are there, the backlog is within its bound, and it is empty
  whenever the stream accepts data. The constructor followed by \<^verbatim>\<open>connect()\<close> gives such
  a state.
\<close>

definition tcp_invariant :: "TcpTransport \<Rightarrow> bool" where
  "tcp_invariant t \<longleftrightarrow>
     tcp_socket t \<noteq> None \<and> tcp_client t \<noteq> None \<and>
     (case backlog t of
        None \<Rightarrow> False
      | Some queue \<Rightarrow> length queue \<le> maxBacklogSize t \<and> (canAcceptData t \<longrightarrow> queue = []))"

text \<open>The backlog as a list (empty once \<^verbatim>\<open>close()\<close> has set it to \<^verbatim>\<open>null\<close>).\<close>

definition queued :: "TcpTransport \<Rightarrow> Buffer list" where
  "queued t = (case backlog t of None \<Rightarrow> [] | Some queue \<Rightarrow> queue)"

section \<open>lib/index.js\<close>

definition kGelfVersion :: string where "kGelfVersion = ''1.1''"

definition supportedTransports :: "string set" where
  "supportedTransports = {''udp''}"

text \<open>\<^verbatim>\<open>kFieldRegEx.test(key)\<close> for \<^verbatim>\<open>/^[\w.-]*$/\<close>: every character is a letter, a digit,
  an underscore, a dot or a hyphen.\<close>

definition word_char :: "char \<Rightarrow> bool" where
  "word_char c \<longleftrightarrow>
     (let n = (of_char c :: nat)
      in (48 \<le> n \<and> n \<le> 57) \<or> (65 \<le> n \<and> n \<le> 90) \<or> (97 \<le> n \<and> n \<le> 122) \<or> n = 95)"

definition kFieldRegEx_test :: "string \<Rightarrow> bool" where
  "kFieldRegEx_test key = list_all (\<lambda>c. word_char c \<or> c = CHR ''.'' \<or> c = CHR ''-'') key"

text \<open>The fields of a \<^verbatim>\<open>GelfClient\<close>; \<^verbatim>\<open>transport\<close> is \<^verbatim>\<open>this[kTransport]\<close>.\<close>

record GelfClient =
  gelf_host :: string
  gelf_version :: string
  transport :: "UdpTransport option"

definition GelfClient_constructor :: "runtime \<Rightarrow> js_value \<Rightarrow> error + GelfClient" where
  "GelfClient_constructor rt options0 =
     (let options = with_default options0 (Object [])
      in if options = Null \<or> typeof options \<noteq> ''object'' then
           Inl (TypeError ''options must be an object'')
         else
           let host = with_default (get_prop options ''host'') (String (Os_hostname rt));
               transport' = with_default (get_prop options ''transport'') (String ''udp'');
               version = with_default (get_prop options ''version'') (String kGelfVersion)
           in case host of
                String h \<Rightarrow>
                  (case version of
                     String v \<Rightarrow>
                       (case transport' of
                          String tname \<Rightarrow>
                            if tname \<notin> supportedTransports then
                              Inl (Error (''unsupported transport: '' @ tname))
                            else
                              (case UdpTransport_constructor options (Some ()) of
                                 Inl e \<Rightarrow> Inl e
                               | Inr t \<Rightarrow>
                                   Inr \<lparr>gelf_host = h, gelf_version = v, transport = Some t\<rparr>)
                        | _ \<Rightarrow> Inl (TypeError ''transport must be a string''))
                   | _ \<Rightarrow> Inl (TypeError ''version must be a string''))
              | _ \<Rightarrow> Inl (TypeError ''host must be a string''))"

definition GelfClient_connect :: "GelfClient \<Rightarrow> GelfClient \<times> event list" where
  "GelfClient_connect c =
     (case transport c of
        None \<Rightarrow> (c, [Throws (TypeError ''Cannot read property connect of null'')])
      | Some t \<Rightarrow> (let (t', evs) = UdpTransport_connect t in (c\<lparr>transport := Some t'\<rparr>, evs)))"

text \<open>
  \<^verbatim>\<open>close()\<close> reads the transport, stores \<^verbatim>\<open>null\<close> in its place, and only then calls the
  transport's \<^verbatim>\<open>close()\<close>.
\<close>

definition GelfClient_close :: "GelfClient \<Rightarrow> GelfClient \<times> event list" where
  "GelfClient_close c =
     (case transport c of
        None \<Rightarrow> (c\<lparr>transport := None\<rparr>,
                   [Throws (TypeError ''Cannot read property close of null'')])
      | Some t \<Rightarrow> (c\<lparr>transport := None\<rparr>, snd (UdpTransport_close t)))"

text \<open>The message \<^verbatim>\<open>[kLogFunction]\<close> composes before it calls the transport.\<close>

definition add_field :: "runtime \<Rightarrow> js_value \<Rightarrow> string \<Rightarrow> (string \<times> js_value) list
    \<Rightarrow> (string \<times> js_value) list" where
  "add_field rt additionalFields key message =
     (if key \<noteq> ''id'' \<and> kFieldRegEx_test key then
        let v = get_prop additionalFields key;
            v = (if typeof v \<noteq> ''number'' \<and> typeof v \<noteq> ''string''
                 then String (to_String rt v) else v)
        in set_prop message (''_'' @ key) v
      else message)"

definition compose :: "GelfClient \<Rightarrow> runtime \<Rightarrow> js_value \<Rightarrow> js_value \<Rightarrow> js_value \<Rightarrow> js_value
    \<Rightarrow> js_value \<Rightarrow> js_value" where
  "compose c rt short full additionalFields timestamp level =
     (let shortMessage =
            (case short of
               NativeError name msg stack \<Rightarrow>
                 Object [(''name'', String name), (''message'', String msg),
                         (''stack'', String stack)]
             | _ \<Rightarrow> short);
          isValidLevel =
            (isSafeInteger level \<and>
             (case level of Number n \<Rightarrow> js_ge_const n 0 \<and> js_le_const n 7 | _ \<Rightarrow> False));
          message =
            [(''version'', String (gelf_version c)),
             (''host'', String (gelf_host c)),
             (''short_message'', shortMessage),
             (''full_message'', full),
             (''level'', if isValidLevel then level else Number (Num 1)),
             (''timestamp'',
                if isFinite timestamp then timestamp else Number (Num (Date_now rt / 1000)))]
      in if typeof additionalFields = ''object'' \<and> additionalFields \<noteq> Null then
           Object (fold (add_field rt additionalFields) (Object_keys additionalFields) message)
         else Object message)"

text \<open>
  \<^verbatim>\<open>[kLogFunction]\<close>: compose, then \<^verbatim>\<open>this[kTransport].send(message)\<close>. The property read
  on \<^verbatim>\<open>null\<close> throws in the caller; what \<^verbatim>\<open>send\<close> itself throws rejects its promise.
\<close>

definition logFunction :: "GelfClient \<Rightarrow> runtime \<Rightarrow> js_value \<Rightarrow> js_value \<Rightarrow> js_value \<Rightarrow> js_value
    \<Rightarrow> js_value \<Rightarrow> error option list \<Rightarrow> event list" where
  "logFunction c rt short full additionalFields timestamp level outcomes =
     (let message = compose c rt short full additionalFields timestamp level
      in case transport c of
           None \<Rightarrow> [Throws (TypeError ''Cannot read property send of null'')]
         | Some t \<Rightarrow> fst (UdpTransport_send t rt message outcomes))"

definition GelfClient_log :: "GelfClient \<Rightarrow> runtime \<Rightarrow> js_value \<Rightarrow> js_value \<Rightarrow> js_value
    \<Rightarrow> js_value \<Rightarrow> js_value \<Rightarrow> error option list \<Rightarrow> event list" where
  "GelfClient_log c rt shortMessage fullMessage additionalFields timestamp level outcomes =
     logFunction c rt shortMessage fullMessage additionalFields timestamp level outcomes"

text \<open>The generated functions \<^verbatim>\<open>emergency\<close> to \<^verbatim>\<open>debug\<close>, by their level.\<close>

definition kLevels :: "(string \<times> nat) list" where
  "kLevels = [(''emergency'', 0), (''alert'', 1), (''critical'', 2), (''error'', 3),
              (''warning'', 4), (''notice'', 5), (''info'', 6), (''debug'', 7)]"

definition GelfClient_level :: "nat \<Rightarrow> GelfClient \<Rightarrow> runtime \<Rightarrow> js_value \<Rightarrow> js_value \<Rightarrow> js_value
    \<Rightarrow> js_value \<Rightarrow> error option list \<Rightarrow> event list" where
  "GelfClient_level level c rt shortMessage fullMessage additionalFields timestamp outcomes =
     logFunction c rt shortMessage fullMessage additionalFields timestamp
       (Number (Num (of_nat level))) outcomes"

section \<open>Example objects\<close>

text \<open>
  A runtime whose \<^verbatim>\<open>JSON.stringify\<close> puts a string without special characters in double
  quotes, whose random bytes are 1, 2, 3, ... and whose fresh memory holds \<^verbatim>\<open>0xff\<close>; and a
  connected transport as the repository's tests build it (no compression, localhost:9000).
\<close>

definition example_stringify :: "js_value \<Rightarrow> string" where
  "example_stringify v = (case v of String s \<Rightarrow> [CHR 0x22] @ s @ [CHR 0x22] | _ \<Rightarrow> ''null'')"

definition example_runtime :: runtime where
  "example_runtime =
     \<lparr>JSON_stringify = example_stringify, Zlib_deflate = Buffer_from,
      to_String = (\<lambda>v. ''[object Object]''), random = (\<lambda>i. of_nat (i + 1)),
      uninitialized = (\<lambda>k i. 0xff), Os_hostname = ''localhost'', Date_now = 0\<rparr>"

definition example_transport :: "nat \<Rightarrow> bool \<Rightarrow> UdpTransport" where
  "example_transport bsize reuse =
     \<lparr>bufferSize = bsize, udp_client = Some (), compression = ''none'',
      udp_host = ''localhost'', udp_port = Num 9000, udp_socket = Some (),
      reuseBuffer = reuse\<rparr>"

text \<open>The message of the tests: twelve times x, fourteen bytes of JSON.\<close>

definition example_message :: js_value where
  "example_message = String ''xxxxxxxxxxxx''"

text \<open>
  A connected stream transport with room for two messages, and the options the tests pass
  to a constructor.
\<close>

definition example_tcp :: TcpTransport where
  "example_tcp =
     \<lparr>backlog = Some [], canAcceptData = True, tcp_client = Some (), tcp_host = ''localhost'',
      maxBacklogSize = 2, tcp_port = Num 9000, tcp_socket = Some (),
      socketOptions = Some [(''port'', Number (Num 9000)), (''host'', String ''localhost'')]\<rparr>"

definition example_options :: js_value where
  "example_options =
     Object [(''graylogHost'', String ''localhost''), (''graylogPort'', Number (Num 9000))]"

text \<open>
  The client \<^verbatim>\<open>new GelfClient({ graylogHost: 'localhost', graylogPort: 9000 })\<close> builds, and
  the same options naming the stream transport.
\<close>

definition example_client :: GelfClient where
  "example_client =
     \<lparr>gelf_host = ''localhost'', gelf_version = ''1.1'',
      transport = Some ((example_transport 1400 True)
                          \<lparr>compression := ''zlib'', udp_socket := None\<rparr>)\<rparr>"

definition example_tcp_options :: js_value where
  "example_tcp_options =
     Object [(''transport'', String ''tcp''), (''graylogHost'', String ''localhost''),
             (''graylogPort'', Number (Num 9000))]"

section \<open>Properties\<close>

lemmas udp_constants =
  kChunkHeaderSize_def kMagicByte0_def kMagicByte1_def kMaxChunks_def kMessageIdBytes_def
  kOffsetMagicByte0_def kOffsetMagicByte1_def kOffsetMessageId_def
  kOffsetSequenceNumber_def kOffsetSequenceCount_def kOffsetPayload_def

lemma ceil_div_upper: "0 < b \<Longrightarrow> a \<le> ceil_div a b * b"
proof -
  assume b: "0 < b"
  have "(a + b - 1) div b * b + (a + b - 1) mod b = a + b - 1" by simp
  moreover have "(a + b - 1) mod b < b" using b by simp
  ultimately show ?thesis unfolding ceil_div_def by linarith
qed

lemma ceil_div_lower: "0 < b \<Longrightarrow> 0 < a \<Longrightarrow> (ceil_div a b - 1) * b < a"
proof -
  assume b: "0 < b" and a: "0 < a"
  have "(a + b - 1) div b * b + (a + b - 1) mod b = a + b - 1" by simp
  then have "(a + b - 1) div b * b \<le> a + b - 1" by linarith
  moreover have "((a + b - 1) div b - 1) * b = (a + b - 1) div b * b - b"
    by (simp add: diff_mult_distrib)
  ultimately show ?thesis unfolding ceil_div_def using a b by linarith
qed

lemma ceil_div_le: "0 < b \<Longrightarrow> a \<le> k * b \<Longrightarrow> ceil_div a b \<le> k"
proof -
  assume b: "0 < b" and a: "a \<le> k * b"
  have "a + b - 1 < (k + 1) * b" using a b by simp
  then have "(a + b - 1) div b < k + 1"
    using b by (simp add: less_mult_imp_div_less)
  then show ?thesis unfolding ceil_div_def by simp
qed

lemma ceil_div_add_mult: "0 < n \<Longrightarrow> ceil_div (a + n * k) n = ceil_div a n + k"
proof -
  assume n: "0 < n"
  have e: "a + n * k + n - 1 = (a + n - 1) + k * n" using n by (simp add: mult.commute)
  have "(x + k * n) div n = x div n + k" for x using n by simp
  then show ?thesis unfolding ceil_div_def e .
qed

lemma ceil_div_pos: "0 < b \<Longrightarrow> 0 < a \<Longrightarrow> 0 < ceil_div a b"
  using ceil_div_upper [of b a] by (cases "ceil_div a b") auto

lemma ceil_div_ceiling: "0 < b \<Longrightarrow> int (ceil_div a b) = \<lceil>real a / real b\<rceil>"
proof -
  assume b: "0 < b"
  have up: "real a \<le> real (ceil_div a b) * real b"
    using ceil_div_upper [OF b, of a] by (metis of_nat_le_iff of_nat_mult)
  show ?thesis
  proof (cases "a = 0")
    case True
    then show ?thesis using b by (simp add: ceil_div_def)
  next
    case False
    then have a: "0 < a" by simp
    have "(ceil_div a b - 1) * b < a" by (rule ceil_div_lower [OF b a])
    then have "real ((ceil_div a b - 1) * b) < real a" by (simp only: of_nat_less_iff)
    moreover have "1 \<le> ceil_div a b" using ceil_div_pos [OF b a] by simp
    ultimately have lo: "(real (ceil_div a b) - 1) * real b < real a"
      by (simp add: of_nat_diff)
    have "real_of_int (int (ceil_div a b)) - 1 < real a / real b"
      using lo b by (simp add: pos_less_divide_eq)
    moreover have "real a / real b \<le> real_of_int (int (ceil_div a b))"
      using up b by (simp add: pos_divide_le_eq)
    ultimately have "\<lceil>real a / real b\<rceil> = int (ceil_div a b)" by (rule ceiling_unique)
    then show ?thesis by simp
  qed
qed

lemma Buffer_copy_length: "Buffer_copy s t ts ss se = Inr r \<Longrightarrow> length r = length t"
  by (auto simp: Buffer_copy_def Let_def split: if_splits)

lemma Buffer_copy_take: "Buffer_copy s t ts ss se = Inr r \<Longrightarrow> take ts r = take ts t"
  by (auto simp: Buffer_copy_def Let_def split: if_splits)

lemma Buffer_copy_ok: "ss \<le> length s \<Longrightarrow> \<exists>r. Buffer_copy s t ts ss se = Inr r"
  by (auto simp: Buffer_copy_def Let_def)

lemma has_header_cong:
  assumes "take 12 d = take 12 d'" and "12 \<le> length d" and "12 \<le> length d'"
  shows "has_header d msgId count = has_header d' msgId count"
proof -
  have n: "d ! i = d' ! i" if "i < 12" for i
    using assms that by (metis nth_take)
  have "drop 2 (take 12 d) = drop 2 (take 12 d')" using assms by simp
  then have "take 10 (drop 2 d) = take 10 (drop 2 d')" by (simp add: drop_take)
  then have "take 8 (take 10 (drop 2 d)) = take 8 (take 10 (drop 2 d'))" by simp
  then have "take 8 (drop 2 d) = take 8 (drop 2 d')" by simp
  then show ?thesis
    using n [of 0] n [of 1] n [of 11] by (simp add: has_header_def udp_constants)
qed

lemma has_header_update:
  "has_header (d[kOffsetSequenceNumber := v]) msgId count = has_header d msgId count"
  by (simp add: has_header_def udp_constants drop_update_swap)

lemma write_header_ok:
  assumes len: "12 \<le> length buf" and id: "length msgId = 8" and cnt: "count \<le> 128"
  shows "\<exists>b. write_header buf msgId count = Inr b \<and> length b = length buf \<and>
             has_header b msgId count"
proof -
  define b1 where "b1 = buf[0 := kMagicByte0, 1 := kMagicByte1]"
  define r where "r = take 2 b1 @ msgId @ drop 10 b1"
  have l1: "length b1 = length buf" by (simp add: b1_def)
  have copy: "Buffer_copy msgId b1 2 0 (length msgId) = Inr r"
    using len id l1 by (simp add: Buffer_copy_def r_def)
  have wh: "write_header buf msgId count = Inr (r[11 := of_nat count])"
    using copy by (simp add: write_header_def b1_def udp_constants)
  have lr: "length r = length buf" using len id l1 by (simp add: r_def)
  have pos: "buf \<noteq> []" "1 < length buf" using len by auto
  have r0: "r ! 0 = kMagicByte0" and r1: "r ! 1 = kMagicByte1"
    using pos l1 by (simp_all add: r_def nth_append b1_def)
  have d2: "drop 2 r = msgId @ drop 10 b1" using len l1 by (simp add: r_def)
  have "take 8 (drop 2 (r[11 := of_nat count])) = take 8 ((drop 2 r)[9 := of_nat count])"
    by (simp add: drop_update_swap)
  also have "\<dots> = take 8 (drop 2 r)" by simp
  also have "\<dots> = msgId" using id by (simp add: d2)
  finally have mid: "take 8 (drop 2 (r[11 := of_nat count])) = msgId" .
  have "unat (of_nat count :: byte) = count" using cnt by (simp add: unat_of_nat)
  then have c: "unat (r[11 := of_nat count] ! 11) = count" using len lr by simp
  have "has_header (r[11 := of_nat count]) msgId count"
    using r0 r1 mid c by (simp add: has_header_def udp_constants)
  then show ?thesis using wh lr by simp
qed

lemma numChunks_pos:
  assumes "kChunkHeaderSize < bufferSize t" and "0 < L"
  shows "0 < numChunks t L"
  using assms ceil_div_pos [of "maxDataPerChunk t" L]
  by (simp add: numChunks_def maxDataPerChunk_def)

lemma chunkSize_eq:
  assumes "kChunkHeaderSize < bufferSize t" and "0 < L"
  shows "chunkSize t L = kChunkHeaderSize + ceil_div L (numChunks t L)"
  using numChunks_pos [OF assms] ceil_div_add_mult [of "numChunks t L" L kChunkHeaderSize]
  by (simp add: chunkSize_def Let_def add.commute)

lemma payload_le_maxData:
  assumes "kChunkHeaderSize < bufferSize t" and "0 < L"
  shows "ceil_div L (numChunks t L) \<le> maxDataPerChunk t"
proof -
  have m: "0 < maxDataPerChunk t" using assms by (simp add: maxDataPerChunk_def)
  have "L \<le> numChunks t L * maxDataPerChunk t"
    unfolding numChunks_def by (rule ceil_div_upper [OF m])
  then have "L \<le> maxDataPerChunk t * numChunks t L" by (simp add: mult.commute)
  then show ?thesis by (rule ceil_div_le [OF numChunks_pos [OF assms]])
qed

lemma chunkSize_le_bufferSize:
  assumes "kChunkHeaderSize < bufferSize t" and "0 < L"
  shows "chunkSize t L \<le> bufferSize t"
  using payload_le_maxData [OF assms] chunkSize_eq [OF assms] assms
  by (simp add: maxDataPerChunk_def)

lemma chunkSize_gt_header:
  assumes "kChunkHeaderSize < bufferSize t" and "0 < L"
  shows "kChunkHeaderSize < chunkSize t L"
  using chunkSize_eq [OF assms] ceil_div_pos [OF numChunks_pos [OF assms] assms(2)] by simp

text \<open>Chunks of the balanced payload size are as many as chunks of the maximal size.\<close>

lemma count_balanced:
  assumes m: "0 < m" and L: "0 < L"
  shows "ceil_div L (ceil_div L (ceil_div L m)) = ceil_div L m"
proof -
  define n where "n = ceil_div L m"
  define c where "c = ceil_div L n"
  have n: "0 < n" unfolding n_def by (rule ceil_div_pos [OF m L])
  have c: "0 < c" unfolding c_def by (rule ceil_div_pos [OF n L])
  have "L \<le> n * m" unfolding n_def by (rule ceil_div_upper [OF m])
  then have "L \<le> m * n" by (simp add: mult.commute)
  then have cm: "c \<le> m" unfolding c_def by (rule ceil_div_le [OF n])
  have "L \<le> c * n" unfolding c_def by (rule ceil_div_upper [OF n])
  then have "L \<le> n * c" by (simp add: mult.commute)
  then have up: "ceil_div L c \<le> n" by (rule ceil_div_le [OF c])
  have "(n - 1) * m < L" unfolding n_def by (rule ceil_div_lower [OF m L])
  moreover have "L \<le> ceil_div L c * c" by (rule ceil_div_upper [OF c])
  moreover have "ceil_div L c * c \<le> ceil_div L c * m" using cm by simp
  ultimately have "(n - 1) * m < ceil_div L c * m" by linarith
  then have "n - 1 < ceil_div L c" by simp
  with up show ?thesis unfolding c_def n_def by linarith
qed

lemma datagrams_append: "datagrams (xs @ ys) = datagrams xs @ datagrams ys"
  by (induction xs rule: datagrams.induct) simp_all

lemma emitted_append: "emitted (xs @ ys) = emitted xs @ emitted ys"
  by (induction xs rule: emitted.induct) simp_all

lemma thrown_append: "thrown (xs @ ys) = thrown xs @ thrown ys"
  by (induction xs rule: thrown.induct) simp_all

lemma next_chunk_copy:
  "\<exists>r. Buffer_copy data (chunk[kOffsetSequenceNumber := of_nat seq]) kOffsetPayload
          (length data - bytes) (length data - bytes + min bytes (length chunk - kChunkHeaderSize))
        = Inr r \<and> next_chunk data chunk seq bytes = r"
proof -
  obtain r where "Buffer_copy data (chunk[kOffsetSequenceNumber := of_nat seq]) kOffsetPayload
          (length data - bytes) (length data - bytes + min bytes (length chunk - kChunkHeaderSize))
        = Inr r"
    by (meson Buffer_copy_ok diff_le_self)
  then show ?thesis by (simp add: next_chunk_def Let_def)
qed

lemma length_next_chunk [simp]: "length (next_chunk data chunk seq bytes) = length chunk"
  using next_chunk_copy [of data chunk seq bytes] by (auto dest: Buffer_copy_length)

lemma take_next_chunk:
  "take kOffsetPayload (next_chunk data chunk seq bytes)
     = take kOffsetPayload (chunk[kOffsetSequenceNumber := of_nat seq])"
  using next_chunk_copy [of data chunk seq bytes] by (auto dest: Buffer_copy_take)

lemma next_chunk_sequence:
  assumes "kChunkHeaderSize \<le> length chunk"
  shows "next_chunk data chunk seq bytes ! kOffsetSequenceNumber = of_nat seq"
proof -
  have "next_chunk data chunk seq bytes ! kOffsetSequenceNumber
          = take kOffsetPayload (next_chunk data chunk seq bytes) ! kOffsetSequenceNumber"
    by (simp add: udp_constants)
  also have "\<dots> = (chunk[kOffsetSequenceNumber := of_nat seq]) ! kOffsetSequenceNumber"
    by (simp add: take_next_chunk) (simp add: udp_constants)
  also have "\<dots> = of_nat seq" using assms by (simp add: udp_constants)
  finally show ?thesis .
qed

lemma has_header_next_chunk:
  assumes "kChunkHeaderSize \<le> length chunk"
  shows "has_header (next_chunk data chunk seq bytes) msgId count = has_header chunk msgId count"
proof -
  have "has_header (next_chunk data chunk seq bytes) msgId count
          = has_header (chunk[kOffsetSequenceNumber := of_nat seq]) msgId count"
    using assms take_next_chunk [of data chunk seq bytes]
    by (intro has_header_cong) (simp_all add: udp_constants)
  then show ?thesis by (simp add: has_header_update)
qed

lemma u_send_connected:
  assumes "udp_socket t = Some s"
  shows "u_send t data chunk seq bytes =
           ([SocketSend (next_chunk data chunk seq bytes) (udp_port t) (udp_host t) True],
            Some (SendCallback data (next_chunk data chunk seq bytes) seq bytes
                    (min bytes (length chunk - kChunkHeaderSize))))"
  using next_chunk_copy [of data chunk seq bytes] assms
  by (auto simp: u_send_def Let_def)

lemma run_send_Nil:
  assumes "udp_socket t = Some s"
  shows "run_send t data chunk seq bytes [] =
           ([SocketSend (next_chunk data chunk seq bytes) (udp_port t) (udp_host t) True],
            Some (SendCallback data (next_chunk data chunk seq bytes) seq bytes
                    (min bytes (length chunk - kChunkHeaderSize))))"
  by (simp add: run_send_def u_send_connected [OF assms])

lemma run_send_failure:
  assumes "udp_socket t = Some s" and "udp_client t = Some c"
  shows "run_send t data chunk seq bytes (Some e # outcomes) =
           ([SocketSend (next_chunk data chunk seq bytes) (udp_port t) (udp_host t) True, Emit e],
            None)"
  by (simp add: run_send_def u_send_connected [OF assms(1)] assms(2))

lemma run_send_success_last:
  assumes "udp_socket t = Some s" and "bytes \<le> length chunk - kChunkHeaderSize"
  shows "run_send t data chunk seq bytes (None # outcomes) =
           ([SocketSend (next_chunk data chunk seq bytes) (udp_port t) (udp_host t) True], None)"
  using assms(2) by (simp add: run_send_def u_send_connected [OF assms(1)])

lemma run_send_success_more:
  assumes "udp_socket t = Some s" and "length chunk - kChunkHeaderSize < bytes"
  shows "run_send t data chunk seq bytes (None # outcomes) =
           (SocketSend (next_chunk data chunk seq bytes) (udp_port t) (udp_host t) True
              # fst (run_send t data (next_chunk data chunk seq bytes) (seq + 1)
                      (bytes - (length chunk - kChunkHeaderSize)) outcomes),
            snd (run_send t data (next_chunk data chunk seq bytes) (seq + 1)
                      (bytes - (length chunk - kChunkHeaderSize)) outcomes))"
  using assms(2)
  by (simp add: run_send_def u_send_connected [OF assms(1)] Let_def split: prod.splits)

lemma run_send_failure_datagrams:
  assumes "udp_socket t = Some s"
  shows "datagrams (fst (run_send t data chunk seq bytes (Some e # outcomes)))
           = [next_chunk data chunk seq bytes]"
  by (simp add: run_send_def u_send_connected [OF assms] split: option.splits)

lemma ceil_div_small: "0 < b \<Longrightarrow> 0 < a \<Longrightarrow> a \<le> b \<Longrightarrow> ceil_div a b = 1"
  using ceil_div_le [of b a 1] ceil_div_pos [of b a] by simp

lemma ceil_div_large: "0 < b \<Longrightarrow> b < a \<Longrightarrow> ceil_div a b = Suc (ceil_div (a - b) b)"
  using ceil_div_add_mult [of b "a - b" 1] by simp

lemma successes_simps [simp]:
  "successes [] = 0"
  "successes (None # outcomes) = Suc (successes outcomes)"
  "successes (Some e # outcomes) = 0"
  by (simp_all add: successes_def)

lemma run_send_datagrams_wf:
  assumes sock: "udp_socket t = Some s" and len: "kChunkHeaderSize \<le> length chunk"
    and d: "d \<in> set (datagrams (fst (run_send t data chunk seq bytes outcomes)))"
  shows "length d = length chunk \<and> has_header d msgId count = has_header chunk msgId count"
  using len d
proof (induction outcomes arbitrary: chunk seq bytes)
  case Nil
  then show ?case by (simp add: run_send_Nil [OF sock] has_header_next_chunk)
next
  case (Cons err outcomes)
  show ?case
  proof (cases err)
    case (Some e)
    with Cons.prems show ?thesis
      by (simp add: run_send_failure_datagrams [OF sock] has_header_next_chunk)
  next
    case None
    show ?thesis
    proof (cases "bytes \<le> length chunk - kChunkHeaderSize")
      case True
      with Cons.prems None show ?thesis
        by (simp add: run_send_success_last [OF sock] has_header_next_chunk)
    next
      case False
      then have more: "length chunk - kChunkHeaderSize < bytes" by simp
      let ?chunk' = "next_chunk data chunk seq bytes"
      from Cons.prems(2) None
      consider "d = ?chunk'"
        | "d \<in> set (datagrams (fst (run_send t data ?chunk' (seq + 1)
                     (bytes - (length chunk - kChunkHeaderSize)) outcomes)))"
        by (auto simp: run_send_success_more [OF sock more])
      then show ?thesis
      proof cases
        case 1
        then show ?thesis using Cons.prems(1) by (simp add: has_header_next_chunk)
      next
        case 2
        have "kChunkHeaderSize \<le> length ?chunk'" using Cons.prems(1) by simp
        from Cons.IH [OF this 2] show ?thesis
          using Cons.prems(1) by (simp add: has_header_next_chunk)
      qed
    qed
  qed
qed

lemma run_send_sequence:
  assumes sock: "udp_socket t = Some s" and len: "kChunkHeaderSize < length chunk"
    and pos: "0 < bytes"
  shows "map (\<lambda>d. d ! kOffsetSequenceNumber)
           (datagrams (fst (run_send t data chunk seq bytes outcomes)))
         = map of_nat [seq ..< seq + min (ceil_div bytes (length chunk - kChunkHeaderSize))
                                      (successes outcomes + 1)]"
  using len pos
proof (induction outcomes arbitrary: chunk seq bytes)
  case Nil
  have "0 < ceil_div bytes (length chunk - kChunkHeaderSize)"
    using Nil by (intro ceil_div_pos) simp_all
  then have "min (ceil_div bytes (length chunk - kChunkHeaderSize)) 1 = 1" by simp
  then show ?case using Nil by (simp add: run_send_Nil [OF sock] next_chunk_sequence)
next
  case (Cons err outcomes)
  let ?c = "length chunk - kChunkHeaderSize"
  have c: "0 < ?c" using Cons.prems by simp
  have n: "0 < ceil_div bytes ?c" using c Cons.prems by (intro ceil_div_pos)
  have first: "next_chunk data chunk seq bytes ! kOffsetSequenceNumber = of_nat seq"
    using Cons.prems by (simp add: next_chunk_sequence)
  show ?case
  proof (cases err)
    case (Some e)
    have "min (ceil_div bytes ?c) 1 = 1" using n by simp
    then show ?thesis using Some first
      by (simp add: run_send_failure_datagrams [OF sock])
  next
    case None
    show ?thesis
    proof (cases "bytes \<le> ?c")
      case True
      then have "ceil_div bytes ?c = 1" using c Cons.prems by (intro ceil_div_small)
      then show ?thesis using None True first
        by (simp add: run_send_success_last [OF sock])
    next
      case False
      then have more: "?c < bytes" by simp
      let ?chunk' = "next_chunk data chunk seq bytes"
      have cd: "ceil_div bytes ?c = Suc (ceil_div (bytes - ?c) ?c)"
        using c more by (rule ceil_div_large)
      have ih: "map (\<lambda>d. d ! kOffsetSequenceNumber)
                  (datagrams (fst (run_send t data ?chunk' (seq + 1) (bytes - ?c) outcomes)))
                = map of_nat [seq + 1 ..< seq + 1 + min (ceil_div (bytes - ?c) ?c)
                                                     (successes outcomes + 1)]"
        using Cons.IH [of ?chunk' "bytes - ?c" "seq + 1"] Cons.prems more by simp
      have "[seq ..< seq + min (ceil_div bytes ?c) (successes (err # outcomes) + 1)]
              = seq # [seq + 1 ..< seq + 1 + min (ceil_div (bytes - ?c) ?c)
                                               (successes outcomes + 1)]"
        using None cd by (simp add: upt_conv_Cons)
      then show ?thesis using None first ih
        by (simp add: run_send_success_more [OF sock more])
    qed
  qed
qed

lemma run_send_emitted:
  assumes sock: "udp_socket t = Some s" and cl: "udp_client t = Some c"
    and len: "kChunkHeaderSize < length chunk" and pos: "0 < bytes"
  shows "emitted (fst (run_send t data chunk seq bytes outcomes))
           = (if successes outcomes < length outcomes
                 \<and> successes outcomes < ceil_div bytes (length chunk - kChunkHeaderSize)
              then [the (outcomes ! successes outcomes)] else [])
         \<and> thrown (fst (run_send t data chunk seq bytes outcomes)) = []
         \<and> (snd (run_send t data chunk seq bytes outcomes) \<noteq> None \<longleftrightarrow>
              successes outcomes = length outcomes
              \<and> length outcomes < ceil_div bytes (length chunk - kChunkHeaderSize))"
  using len pos
proof (induction outcomes arbitrary: chunk seq bytes)
  case Nil
  have "0 < ceil_div bytes (length chunk - kChunkHeaderSize)"
    using Nil by (intro ceil_div_pos) simp_all
  then show ?case by (simp add: run_send_Nil [OF sock])
next
  case (Cons err outcomes)
  let ?c = "length chunk - kChunkHeaderSize"
  have c: "0 < ?c" using Cons.prems by simp
  have n: "0 < ceil_div bytes ?c" using c Cons.prems by (intro ceil_div_pos)
  show ?case
  proof (cases err)
    case (Some e)
    then show ?thesis using n by (simp add: run_send_failure [OF sock cl])
  next
    case None
    show ?thesis
    proof (cases "bytes \<le> ?c")
      case True
      then have "ceil_div bytes ?c = 1" using c Cons.prems by (intro ceil_div_small)
      then show ?thesis using None True
        by (simp add: run_send_success_last [OF sock])
    next
      case False
      then have more: "?c < bytes" by simp
      let ?chunk' = "next_chunk data chunk seq bytes"
      have cd: "ceil_div bytes ?c = Suc (ceil_div (bytes - ?c) ?c)"
        using c more by (rule ceil_div_large)
      have ih: "emitted (fst (run_send t data ?chunk' (seq + 1) (bytes - ?c) outcomes))
           = (if successes outcomes < length outcomes
                 \<and> successes outcomes < ceil_div (bytes - ?c) ?c
              then [the (outcomes ! successes outcomes)] else [])
         \<and> thrown (fst (run_send t data ?chunk' (seq + 1) (bytes - ?c) outcomes)) = []
         \<and> (snd (run_send t data ?chunk' (seq + 1) (bytes - ?c) outcomes) \<noteq> None \<longleftrightarrow>
              successes outcomes = length outcomes
              \<and> length outcomes < ceil_div (bytes - ?c) ?c)"
        using Cons.IH [of ?chunk' "bytes - ?c" "seq + 1"] Cons.prems more by simp
      show ?thesis using None ih cd
        by (simp add: run_send_success_more [OF sock more])
    qed
  qed
qed

lemma Buffer_copy_min_ok: "\<exists>r. Buffer_copy s t ts ss (min (length s) se) = Inr r"
  by (auto simp: Buffer_copy_def Let_def)

lemma loop_buffer_ok:
  assumes len: "kChunkHeaderSize \<le> csize" and mid: "length msgId = kMessageIdBytes"
    and cnt: "count \<le> kMaxChunks"
  shows "\<exists>b. loop_buffer rt msg msgId maxData count csize i = Inr b \<and> length b = csize \<and>
             has_header b msgId count \<and> b ! kOffsetSequenceNumber = of_nat i"
proof -
  let ?buf = "allocUnsafe (uninitialized rt i) csize"
  have "12 \<le> length ?buf" using len by (simp add: allocUnsafe_def udp_constants)
  from write_header_ok [OF this, of msgId count] mid cnt
  obtain h where h: "write_header ?buf msgId count = Inr h" "length h = csize"
    "has_header h msgId count"
    by (auto simp: udp_constants allocUnsafe_def)
  obtain b where b: "Buffer_copy msg (h[kOffsetSequenceNumber := of_nat i]) kOffsetPayload
                       (i * maxData) (min (length msg) (i * maxData + maxData)) = Inr b"
    using Buffer_copy_min_ok by blast
  have lb: "length b = csize" using Buffer_copy_length [OF b] h(2) by simp
  have tk: "take 12 b = take 12 (h[kOffsetSequenceNumber := of_nat i])"
    using Buffer_copy_take [OF b] by (simp add: udp_constants)
  have "has_header b msgId count = has_header (h[kOffsetSequenceNumber := of_nat i]) msgId count"
    using tk lb h(2) len by (intro has_header_cong) (simp_all add: udp_constants)
  then have hb: "has_header b msgId count" using h(3) by (simp add: has_header_update)
  have "b ! 10 = take 12 b ! 10" by simp
  also have "\<dots> = (h[10 := of_nat i]) ! 10" using tk by (simp add: udp_constants)
  also have "\<dots> = of_nat i" using h(2) len by (simp add: udp_constants)
  finally have "b ! kOffsetSequenceNumber = of_nat i" by (simp add: udp_constants)
  then show ?thesis using h(1) b lb hb by (simp add: loop_buffer_def Let_def)
qed

declare send_loop.simps [simp del]

lemma send_loop_datagrams:
  assumes sock: "udp_socket t = Some s" and len: "kChunkHeaderSize \<le> csize"
    and mid: "length msgId = kMessageIdBytes" and cnt: "count \<le> kMaxChunks"
  shows "list_all2 (\<lambda>d i. length d = csize \<and> has_header d msgId count
                          \<and> d ! kOffsetSequenceNumber = of_nat i)
           (datagrams (send_loop t rt msg msgId maxData count csize seq)) [seq ..< count]
         \<and> emitted (send_loop t rt msg msgId maxData count csize seq) = []
         \<and> thrown (send_loop t rt msg msgId maxData count csize seq) = []"
proof (induction "count - seq" arbitrary: seq)
  case 0
  then have "\<not> seq < count" by simp
  then show ?case by (subst (1 2 3) send_loop.simps) simp
next
  case (Suc k)
  then have lt: "seq < count" by simp
  obtain b where b: "loop_buffer rt msg msgId maxData count csize seq = Inr b"
      "length b = csize" "has_header b msgId count" "b ! kOffsetSequenceNumber = of_nat seq"
    using loop_buffer_ok [OF len mid cnt] by blast
  have step: "send_loop t rt msg msgId maxData count csize seq
                = SocketSend b (udp_port t) (udp_host t) False
                  # send_loop t rt msg msgId maxData count csize (seq + 1)"
    using lt b(1) sock by (subst send_loop.simps) simp
  have "k = count - (seq + 1)" using Suc.hyps(2) by simp
  from Suc.hyps(1) [OF this] show ?case
    using b lt by (simp add: step upt_conv_Cons)
qed

lemma length_randomBytes [simp]: "length (randomBytes rt n) = n"
  by (simp add: randomBytes_def)

lemma length_allocUnsafe [simp]: "length (allocUnsafe mem n) = n"
  by (simp add: allocUnsafe_def)

text \<open>What the two chunking branches dispatch, for a message that is chunked.\<close>

lemma send_chunked_reuse:
  assumes big: "bufferSize t < length (serialized t rt message)"
    and cnt: "numChunks t (length (serialized t rt message)) \<le> kMaxChunks"
    and reuse: "reuseBuffer t"
    and hdr: "kChunkHeaderSize < bufferSize t"
  shows "\<exists>buf. UdpTransport_send t rt message outcomes
                 = run_send t (serialized t rt message) buf 0 (length (serialized t rt message))
                     outcomes
             \<and> length buf = chunkSize t (length (serialized t rt message))
             \<and> has_header buf (randomBytes rt kMessageIdBytes)
                   (numChunks t (length (serialized t rt message)))"
proof -
  let ?L = "length (serialized t rt message)"
  let ?buf = "allocUnsafe (uninitialized rt 0) (chunkSize t ?L)"
  have L: "0 < ?L" using big by (cases "serialized t rt message") simp_all
  have "12 \<le> length ?buf"
    using chunkSize_gt_header [OF hdr L] by (simp add: udp_constants)
  from write_header_ok [OF this, of "randomBytes rt kMessageIdBytes" "numChunks t ?L"] cnt
  obtain b where "write_header ?buf (randomBytes rt kMessageIdBytes) (numChunks t ?L) = Inr b"
    "length b = chunkSize t ?L"
    "has_header b (randomBytes rt kMessageIdBytes) (numChunks t ?L)"
    by (auto simp: udp_constants)
  then show ?thesis using big cnt reuse
    by (auto simp: UdpTransport_send_def Let_def)
qed

lemma send_chunked_loop:
  assumes big: "bufferSize t < length (serialized t rt message)"
    and cnt: "numChunks t (length (serialized t rt message)) \<le> kMaxChunks"
    and reuse: "\<not> reuseBuffer t"
  shows "UdpTransport_send t rt message outcomes
           = (send_loop t rt (serialized t rt message) (randomBytes rt kMessageIdBytes)
                (maxDataPerChunk t) (numChunks t (length (serialized t rt message)))
                (chunkSize t (length (serialized t rt message))) 0, None)"
  using assms by (simp add: UdpTransport_send_def Let_def)

text \<open>
  Claim C4. For a message that is chunked (its serialized length \<^verbatim>\<open>L\<close> exceeds
  \<^verbatim>\<open>bufferSize\<close>, and the number of chunks is at most 128) the size of the chunk buffer is
  \<^verbatim>\<open>ceil((L + numChunks * 12) / numChunks)\<close>, it is at most \<^verbatim>\<open>bufferSize\<close>, and every
  datagram the call dispatches, in either branch and whatever the writes report, has exactly
  that length.
\<close>

theorem chunk_size_within_bufferSize:
  assumes hdr: "kChunkHeaderSize < bufferSize t"
    and sock: "udp_socket t = Some s"
    and big: "bufferSize t < length (serialized t rt message)"
    and cnt: "numChunks t (length (serialized t rt message)) \<le> kMaxChunks"
    and L: "L = length (serialized t rt message)"
  shows "chunkSize t L = ceil_div (L + numChunks t L * kChunkHeaderSize) (numChunks t L)
       \<and> int (chunkSize t L)
           = \<lceil>real (L + numChunks t L * kChunkHeaderSize) / real (numChunks t L)\<rceil>
       \<and> chunkSize t L \<le> bufferSize t
       \<and> (\<forall>d \<in> set (datagrams (fst (UdpTransport_send t rt message outcomes))).
             length d = chunkSize t L \<and> length d \<le> bufferSize t)"
proof -
  have pos: "0 < L" using big L by (cases "serialized t rt message") simp_all
  have n: "0 < numChunks t L" by (rule numChunks_pos [OF hdr pos])
  have a: "chunkSize t L = ceil_div (L + numChunks t L * kChunkHeaderSize) (numChunks t L)"
    by (simp add: chunkSize_def Let_def)
  have b: "int (chunkSize t L)
             = \<lceil>real (L + numChunks t L * kChunkHeaderSize) / real (numChunks t L)\<rceil>"
    unfolding a by (rule ceil_div_ceiling [OF n])
  have c: "chunkSize t L \<le> bufferSize t" by (rule chunkSize_le_bufferSize [OF hdr pos])
  have d: "length d = chunkSize t L"
    if d: "d \<in> set (datagrams (fst (UdpTransport_send t rt message outcomes)))" for d
  proof (cases "reuseBuffer t")
    case True
    from send_chunked_reuse [OF big cnt True hdr, of outcomes]
    obtain buf where buf: "UdpTransport_send t rt message outcomes
                 = run_send t (serialized t rt message) buf 0 L outcomes"
        "length buf = chunkSize t L"
      using L by auto
    have "kChunkHeaderSize \<le> length buf"
      using buf(2) chunkSize_gt_header [OF hdr pos] by simp
    from run_send_datagrams_wf [OF sock this] d buf show ?thesis by simp
  next
    case False
    have "kChunkHeaderSize \<le> chunkSize t L" using chunkSize_gt_header [OF hdr pos] by simp
    from send_loop_datagrams [OF sock this _ cnt [folded L], of "randomBytes rt kMessageIdBytes"]
    have "list_all2 (\<lambda>d i. length d = chunkSize t L
               \<and> has_header d (randomBytes rt kMessageIdBytes) (numChunks t L)
               \<and> d ! kOffsetSequenceNumber = of_nat i)
             (datagrams (fst (UdpTransport_send t rt message outcomes))) [0 ..< numChunks t L]"
      by (simp add: send_chunked_loop [OF big cnt False] L)
    then show ?thesis using d by (auto simp: list_all2_conv_all_nth in_set_conv_nth)
  qed
  show ?thesis using a b c d by simp
qed

theorem chunk_size_within_bufferSize_witness:
  "kChunkHeaderSize < bufferSize (example_transport 13 True)
   \<and> udp_socket (example_transport 13 True) = Some ()
   \<and> bufferSize (example_transport 13 True)
       < length (serialized (example_transport 13 True) example_runtime example_message)
   \<and> numChunks (example_transport 13 True)
        (length (serialized (example_transport 13 True) example_runtime example_message))
       \<le> kMaxChunks
   \<and> chunkSize (example_transport 13 True) 14 = 13
   \<and> chunkSize (example_transport 13 True) 14 \<le> bufferSize (example_transport 13 True)
   \<and> length (hd (datagrams (fst (UdpTransport_send (example_transport 13 True)
                 example_runtime example_message [None])))) = 13"
proof -
  let ?t = "example_transport 13 True"
  let ?ds = "datagrams (fst (UdpTransport_send ?t example_runtime example_message [None]))"
  have L: "14 = length (serialized ?t example_runtime example_message)" by code_simp
  have h1: "kChunkHeaderSize < bufferSize ?t" by code_simp
  have h2: "udp_socket ?t = Some ()" by code_simp
  have h3: "bufferSize ?t < length (serialized ?t example_runtime example_message)" by code_simp
  have h4: "numChunks ?t (length (serialized ?t example_runtime example_message)) \<le> kMaxChunks"
    by code_simp
  have ne: "?ds \<noteq> []" by code_simp
  have cs: "chunkSize ?t 14 = 13" by code_simp
  note inst = chunk_size_within_bufferSize [OF h1 h2 h3 h4 L, of "[None]"]
  from inst ne have "length (hd ?ds) = chunkSize ?t 14" by simp
  with inst h1 h2 h3 h4 cs show ?thesis by simp
qed

lemma sequence_numbers_of_bytes:
  assumes "map (\<lambda>d. d ! kOffsetSequenceNumber) ds = map of_nat [0 ..< k]" and "k \<le> 256"
  shows "map sequenceNumber ds = [0 ..< k]"
proof -
  have "map sequenceNumber ds = map unat (map (\<lambda>d. d ! kOffsetSequenceNumber) ds)"
    by (simp add: sequenceNumber_def)
  also have "\<dots> = map (\<lambda>i. unat (of_nat i :: byte)) [0 ..< k]"
    by (simp add: assms(1))
  also have "\<dots> = map (\<lambda>i. i) [0 ..< k]"
    using assms(2) by (intro map_cong refl) (simp add: unat_of_nat)
  finally show ?thesis by simp
qed

lemma list_all2_map_eq: "list_all2 (\<lambda>d i. f d = g i) ds xs \<Longrightarrow> map f ds = map g xs"
  by (induction rule: list_all2_induct) simp_all

text \<open>
  The dispatched fragments of a chunked message, in both branches and for any outcomes of
  the writes.
\<close>

lemma send_chunked_fragments:
  assumes hdr: "kChunkHeaderSize < bufferSize t"
    and sock: "udp_socket t = Some s"
    and big: "bufferSize t < length (serialized t rt message)"
    and cnt: "numChunks t (length (serialized t rt message)) \<le> kMaxChunks"
    and L: "L = length (serialized t rt message)"
    and ds: "ds = datagrams (fst (UdpTransport_send t rt message outcomes))"
  shows "map sequenceNumber ds = [0 ..< (if reuseBuffer t then min (numChunks t L) (successes outcomes + 1) else numChunks t L)]"
    and "\<And>d. d \<in> set ds \<Longrightarrow> has_header d (randomBytes rt kMessageIdBytes) (numChunks t L)"
proof -
  have pos: "0 < L" using big L by (cases "serialized t rt message") simp_all
  have n: "0 < numChunks t L" by (rule numChunks_pos [OF hdr pos])
  have n256: "numChunks t L \<le> 256" using cnt L by (simp add: udp_constants)
  have cs: "kChunkHeaderSize < chunkSize t L" by (rule chunkSize_gt_header [OF hdr pos])
  have both: "map sequenceNumber ds = [0 ..< (if reuseBuffer t then min (numChunks t L) (successes outcomes + 1) else numChunks t L)]
    \<and> (\<forall>d \<in> set ds. has_header d (randomBytes rt kMessageIdBytes) (numChunks t L))"
  proof (cases "reuseBuffer t")
    case True
    from send_chunked_reuse [OF big cnt True hdr, of outcomes]
    obtain buf where buf: "UdpTransport_send t rt message outcomes
                 = run_send t (serialized t rt message) buf 0 L outcomes"
        "length buf = chunkSize t L"
        "has_header buf (randomBytes rt kMessageIdBytes) (numChunks t L)"
      using L by auto
    have len: "kChunkHeaderSize < length buf" using buf(2) cs by simp
    have c: "length buf - kChunkHeaderSize = ceil_div L (numChunks t L)"
      using buf(2) chunkSize_eq [OF hdr pos] by simp
    have m: "0 < maxDataPerChunk t" using hdr by (simp add: maxDataPerChunk_def)
    have "ceil_div L (length buf - kChunkHeaderSize) = numChunks t L"
      unfolding c numChunks_def by (rule count_balanced [OF m pos])
    with run_send_sequence [OF sock len pos, of "serialized t rt message" 0 outcomes]
    have "map (\<lambda>d. d ! kOffsetSequenceNumber) ds
            = map of_nat [0 ..< (if reuseBuffer t then min (numChunks t L) (successes outcomes + 1) else numChunks t L)]"
      using True by (simp add: ds buf(1))
    moreover have "(if reuseBuffer t then min (numChunks t L) (successes outcomes + 1) else numChunks t L) \<le> 256"
      using n256 True by simp
    ultimately have a: "map sequenceNumber ds = [0 ..< (if reuseBuffer t then min (numChunks t L) (successes outcomes + 1) else numChunks t L)]"
      by (rule sequence_numbers_of_bytes)
    have "has_header d (randomBytes rt kMessageIdBytes) (numChunks t L)"
      if "d \<in> set ds" for d
      using run_send_datagrams_wf [OF sock less_imp_le [OF len], of d
          "serialized t rt message" 0 L outcomes "randomBytes rt kMessageIdBytes" "numChunks t L"]
        that buf(3)
      by (simp add: ds buf(1))
    with a show ?thesis by simp
  next
    case False
    from send_loop_datagrams [OF sock less_imp_le [OF cs] _ cnt [folded L],
        of "randomBytes rt kMessageIdBytes"]
    have all2: "list_all2 (\<lambda>d i. length d = chunkSize t L
               \<and> has_header d (randomBytes rt kMessageIdBytes) (numChunks t L)
               \<and> d ! kOffsetSequenceNumber = of_nat i) ds [0 ..< numChunks t L]"
      by (simp add: ds send_chunked_loop [OF big cnt False] L)
    then have "list_all2 (\<lambda>d i. d ! kOffsetSequenceNumber = of_nat i) ds [0 ..< numChunks t L]"
      by (rule list_all2_mono) simp
    then have "map (\<lambda>d. d ! kOffsetSequenceNumber) ds = map of_nat [0 ..< numChunks t L]"
      by (rule list_all2_map_eq)
    then have "map sequenceNumber ds = [0 ..< numChunks t L]"
      using n256 by (rule sequence_numbers_of_bytes)
    then have a: "map sequenceNumber ds = [0 ..< (if reuseBuffer t then min (numChunks t L) (successes outcomes + 1) else numChunks t L)]"
      using False by simp
    have "has_header d (randomBytes rt kMessageIdBytes) (numChunks t L)"
      if "d \<in> set ds" for d
      using all2 that by (auto simp: list_all2_conv_all_nth in_set_conv_nth)
    with a show ?thesis by simp
  qed
  show "map sequenceNumber ds = [0 ..< (if reuseBuffer t then min (numChunks t L) (successes outcomes + 1) else numChunks t L)]" using both by simp
  show "\<And>d. d \<in> set ds \<Longrightarrow> has_header d (randomBytes rt kMessageIdBytes) (numChunks t L)"
    using both by simp
qed

lemma send_chunked_errors:
  assumes hdr: "kChunkHeaderSize < bufferSize t"
    and sock: "udp_socket t = Some s" and cl: "udp_client t = Some c"
    and big: "bufferSize t < length (serialized t rt message)"
    and cnt: "numChunks t (length (serialized t rt message)) \<le> kMaxChunks"
    and L: "L = length (serialized t rt message)"
  shows "thrown (fst (UdpTransport_send t rt message outcomes)) = []"
    and "emitted (fst (UdpTransport_send t rt message outcomes))
           = (if reuseBuffer t \<and> successes outcomes < length outcomes
                 \<and> successes outcomes < numChunks t L
              then [the (outcomes ! successes outcomes)] else [])"
    and "snd (UdpTransport_send t rt message outcomes) \<noteq> None \<longleftrightarrow>
           reuseBuffer t \<and> successes outcomes = length outcomes
           \<and> length outcomes < numChunks t L"
proof -
  have pos: "0 < L" using big L by (cases "serialized t rt message") simp_all
  have cs: "kChunkHeaderSize < chunkSize t L" by (rule chunkSize_gt_header [OF hdr pos])
  have all: "thrown (fst (UdpTransport_send t rt message outcomes)) = []
    \<and> emitted (fst (UdpTransport_send t rt message outcomes))
           = (if reuseBuffer t \<and> successes outcomes < length outcomes
                 \<and> successes outcomes < numChunks t L
              then [the (outcomes ! successes outcomes)] else [])
    \<and> (snd (UdpTransport_send t rt message outcomes) \<noteq> None \<longleftrightarrow>
           reuseBuffer t \<and> successes outcomes = length outcomes
           \<and> length outcomes < numChunks t L)"
  proof (cases "reuseBuffer t")
    case True
    from send_chunked_reuse [OF big cnt True hdr, of outcomes]
    obtain buf where buf: "UdpTransport_send t rt message outcomes
                 = run_send t (serialized t rt message) buf 0 L outcomes"
        "length buf = chunkSize t L"
      using L by auto
    have len: "kChunkHeaderSize < length buf" using buf(2) cs by simp
    have c: "length buf - kChunkHeaderSize = ceil_div L (numChunks t L)"
      using buf(2) chunkSize_eq [OF hdr pos] by simp
    have m: "0 < maxDataPerChunk t" using hdr by (simp add: maxDataPerChunk_def)
    have "ceil_div L (length buf - kChunkHeaderSize) = numChunks t L"
      unfolding c numChunks_def by (rule count_balanced [OF m pos])
    with run_send_emitted [OF sock cl len pos, of "serialized t rt message" 0 outcomes]
    show ?thesis using True by (simp add: buf(1))
  next
    case False
    from send_loop_datagrams [OF sock less_imp_le [OF cs] _ cnt [folded L],
        of "randomBytes rt kMessageIdBytes"]
    show ?thesis using False by (simp add: send_chunked_loop [OF big cnt False] L)
  qed
  show "thrown (fst (UdpTransport_send t rt message outcomes)) = []" using all by simp
  show "emitted (fst (UdpTransport_send t rt message outcomes))
           = (if reuseBuffer t \<and> successes outcomes < length outcomes
                 \<and> successes outcomes < numChunks t L
              then [the (outcomes ! successes outcomes)] else [])" using all by simp
  show "snd (UdpTransport_send t rt message outcomes) \<noteq> None \<longleftrightarrow>
           reuseBuffer t \<and> successes outcomes = length outcomes
           \<and> length outcomes < numChunks t L" using all by simp
qed

lemma run_send_shape:
  assumes sock: "udp_socket t = Some s" and cl: "udp_client t = Some c"
  shows "fst (run_send t data chunk seq bytes outcomes)
           = map (\<lambda>d. SocketSend d (udp_port t) (udp_host t) True)
               (datagrams (fst (run_send t data chunk seq bytes outcomes)))
             @ map Emit (emitted (fst (run_send t data chunk seq bytes outcomes)))"
proof (induction outcomes arbitrary: chunk seq bytes)
  case Nil
  show ?case by (simp add: run_send_Nil [OF sock])
next
  case (Cons err outcomes)
  show ?case
  proof (cases err)
    case (Some e)
    then show ?thesis by (simp add: run_send_failure [OF sock cl])
  next
    case None
    show ?thesis
    proof (cases "bytes \<le> length chunk - kChunkHeaderSize")
      case True
      then show ?thesis using None by (simp add: run_send_success_last [OF sock])
    next
      case False
      then have more: "length chunk - kChunkHeaderSize < bytes" by simp
      show ?thesis
        using None
          Cons.IH [of "next_chunk data chunk seq bytes" "seq + 1"
                      "bytes - (length chunk - kChunkHeaderSize)"]
        by (simp add: run_send_success_more [OF sock more])
    qed
  qed
qed

text \<open>
  Claim C3. For a chunked message, in both branches and when every fragment's write
  succeeds, every dispatched fragment carries the magic bytes \<^verbatim>\<open>0x1e\<close> and \<^verbatim>\<open>0x0f\<close> at
  offsets 0 and 1, the same eight random bytes at offsets 2 to 9 and the number of chunks at
  offset 11; the sequence numbers at offset 10 are 0, 1, ..., numChunks - 1 in the order
  of dispatch, so their set is exactly that range.
\<close>

theorem fragments_share_header:
  assumes hdr: "kChunkHeaderSize < bufferSize t"
    and sock: "udp_socket t = Some s"
    and big: "bufferSize t < length (serialized t rt message)"
    and cnt: "numChunks t (length (serialized t rt message)) \<le> kMaxChunks"
    and L: "L = length (serialized t rt message)"
    and ok: "reuseBuffer t \<longrightarrow> numChunks t L \<le> successes outcomes"
    and ds: "ds = datagrams (fst (UdpTransport_send t rt message outcomes))"
  shows "(\<forall>d \<in> set ds.
            d ! kOffsetMagicByte0 = kMagicByte0 \<and> d ! kOffsetMagicByte1 = kMagicByte1
            \<and> take kMessageIdBytes (drop kOffsetMessageId d) = randomBytes rt kMessageIdBytes
            \<and> unat (d ! kOffsetSequenceCount) = numChunks t L)
       \<and> map sequenceNumber ds = [0 ..< numChunks t L]
       \<and> sequenceNumber ` set ds = {0 ..< numChunks t L}"
proof -
  have "(if reuseBuffer t then min (numChunks t L) (successes outcomes + 1)
         else numChunks t L) = numChunks t L"
    using ok by auto
  with send_chunked_fragments(1) [OF hdr sock big cnt L ds]
  have a: "map sequenceNumber ds = [0 ..< numChunks t L]" by simp
  have "set (map sequenceNumber ds) = set [0 ..< numChunks t L]" by (simp only: a)
  then have b: "sequenceNumber ` set ds = {0 ..< numChunks t L}" by simp
  have "has_header d (randomBytes rt kMessageIdBytes) (numChunks t L)" if "d \<in> set ds" for d
    using send_chunked_fragments(2) [OF hdr sock big cnt L ds that] .
  then show ?thesis using a b by (simp add: has_header_def)
qed

theorem fragments_share_header_witness:
  "kChunkHeaderSize < bufferSize (example_transport 13 True)
   \<and> udp_socket (example_transport 13 True) = Some ()
   \<and> bufferSize (example_transport 13 True)
       < length (serialized (example_transport 13 True) example_runtime example_message)
   \<and> numChunks (example_transport 13 True) 14 \<le> kMaxChunks
   \<and> reuseBuffer (example_transport 13 True)
   \<and> numChunks (example_transport 13 True) 14 \<le> successes (replicate 14 None)
   \<and> map sequenceNumber (datagrams (fst (UdpTransport_send (example_transport 13 True)
          example_runtime example_message (replicate 14 None)))) = [0 ..< 14]
   \<and> take 12 (hd (datagrams (fst (UdpTransport_send (example_transport 13 True)
          example_runtime example_message (replicate 14 None)))))
       = [0x1e, 0x0f, 1, 2, 3, 4, 5, 6, 7, 8, 0, 14]"
proof -
  let ?t = "example_transport 13 True"
  let ?ds = "datagrams (fst (UdpTransport_send ?t example_runtime example_message
               (replicate 14 None)))"
  have L: "14 = length (serialized ?t example_runtime example_message)" by code_simp
  have h1: "kChunkHeaderSize < bufferSize ?t" by code_simp
  have h2: "udp_socket ?t = Some ()" by code_simp
  have h3: "bufferSize ?t < length (serialized ?t example_runtime example_message)" by code_simp
  have h4: "numChunks ?t (length (serialized ?t example_runtime example_message)) \<le> kMaxChunks"
    by code_simp
  have h4': "numChunks ?t 14 \<le> kMaxChunks" by code_simp
  have h5: "numChunks ?t 14 \<le> successes (replicate 14 None)" by code_simp
  have h6: "reuseBuffer ?t" by code_simp
  have n: "numChunks ?t 14 = 14" by code_simp
  have hd12: "take 12 (hd ?ds) = [0x1e, 0x0f, 1, 2, 3, 4, 5, 6, 7, 8, 0, 14]" by code_simp
  from fragments_share_header [OF h1 h2 h3 h4 L _ refl, of "replicate 14 None"] h5
  have "map sequenceNumber ?ds = [0 ..< numChunks ?t 14]" by blast
  then have "map sequenceNumber ?ds = [0 ..< 14]" by (simp only: n)
  then show ?thesis using h1 h2 h3 h4' h5 h6 hd12 by blast
qed

text \<open>
  Claim C2, as amended. On a connected transport, with \<^verbatim>\<open>L\<close> the length of the serialized
  message: if \<^verbatim>\<open>L \<le> bufferSize\<close> the call hands the socket exactly one datagram, the
  serialized bytes themselves; if \<^verbatim>\<open>L > bufferSize\<close> and the number of chunks is above 128
  it hands the socket nothing and emits the error \<^verbatim>\<open>message too large\<close>; otherwise it
  dispatches exactly \<^verbatim>\<open>numChunks\<close> datagrams when the buffer is not reused or when every
  write succeeds, and emits nothing. With a reused buffer the number dispatched is the number
  of writes that completed without error, plus one, and at most \<^verbatim>\<open>numChunks\<close>.
\<close>

theorem send_dispatch_count:
  assumes hdr: "kChunkHeaderSize < bufferSize t"
    and sock: "udp_socket t = Some s" and cl: "udp_client t = Some c"
    and L: "L = length (serialized t rt message)"
    and r: "r = UdpTransport_send t rt message outcomes"
  shows "(L \<le> bufferSize t \<longrightarrow>
            r = ([SocketSend (serialized t rt message) (udp_port t) (udp_host t) False], None))
       \<and> (bufferSize t < L \<and> kMaxChunks < numChunks t L \<longrightarrow>
            r = ([Emit (Error ''message too large'')], None))
       \<and> (bufferSize t < L \<and> numChunks t L \<le> kMaxChunks \<longrightarrow>
            length (datagrams (fst r))
              = (if reuseBuffer t then min (numChunks t L) (successes outcomes + 1)
                 else numChunks t L)
            \<and> thrown (fst r) = [])
       \<and> (bufferSize t < L \<and> numChunks t L \<le> kMaxChunks
            \<and> (reuseBuffer t \<longrightarrow> numChunks t L \<le> successes outcomes) \<longrightarrow>
            length (datagrams (fst r)) = numChunks t L \<and> emitted (fst r) = []
            \<and> snd r = None)"
proof -
  have small: "r = ([SocketSend (serialized t rt message) (udp_port t) (udp_host t) False], None)"
    if "L \<le> bufferSize t"
    using that sock by (simp add: r L UdpTransport_send_def Let_def)
  have large: "r = ([Emit (Error ''message too large'')], None)"
    if "bufferSize t < L" "kMaxChunks < numChunks t L"
    using that cl by (simp add: r L UdpTransport_send_def Let_def)
  have count: "length (datagrams (fst r))
              = (if reuseBuffer t then min (numChunks t L) (successes outcomes + 1)
                 else numChunks t L)"
    and nothrow: "thrown (fst r) = []"
    if big: "bufferSize t < L" and cnt: "numChunks t L \<le> kMaxChunks"
  proof -
    have "length (map sequenceNumber (datagrams (fst r)))
            = length [0 ..< (if reuseBuffer t then min (numChunks t L) (successes outcomes + 1)
                             else numChunks t L)]"
      using send_chunked_fragments(1) [OF hdr sock big [unfolded L] cnt [unfolded L] L r [THEN arg_cong, of "\<lambda>x. datagrams (fst x)"]]
      by (simp only:)
    then show "length (datagrams (fst r))
              = (if reuseBuffer t then min (numChunks t L) (successes outcomes + 1)
                 else numChunks t L)" by simp
    show "thrown (fst r) = []"
      using send_chunked_errors(1) [OF hdr sock cl big [unfolded L] cnt [unfolded L] L]
      by (simp add: r)
  qed
  have full: "length (datagrams (fst r)) = numChunks t L \<and> emitted (fst r) = [] \<and> snd r = None"
    if big: "bufferSize t < L" and cnt: "numChunks t L \<le> kMaxChunks"
      and ok: "reuseBuffer t \<longrightarrow> numChunks t L \<le> successes outcomes"
  proof -
    have sl: "successes outcomes \<le> length outcomes"
      by (simp add: successes_def length_takeWhile_le)
    have a: "length (datagrams (fst r)) = numChunks t L"
      using count [OF big cnt] ok by auto
    have b: "emitted (fst r) = []"
      using send_chunked_errors(2) [OF hdr sock cl big [unfolded L] cnt [unfolded L] L, of outcomes]
        ok by (auto simp: r)
    have c: "snd r = None"
      using send_chunked_errors(3) [OF hdr sock cl big [unfolded L] cnt [unfolded L] L, of outcomes]
        ok sl by (auto simp: r)
    show ?thesis using a b c by simp
  qed
  show ?thesis
    by (intro conjI impI; (elim conjE)?) (auto simp: small large count nothrow full)
qed

theorem send_dispatch_count_witness:
  "kChunkHeaderSize < bufferSize (example_transport 13 True)
   \<and> udp_socket (example_transport 13 True) = Some ()
   \<and> udp_client (example_transport 13 True) = Some ()
   \<and> length (serialized (example_transport 13 True) example_runtime (String ''xxxxxxxxxxx''))
       \<le> bufferSize (example_transport 13 True)
   \<and> UdpTransport_send (example_transport 13 True) example_runtime (String ''xxxxxxxxxxx'') []
       = ([SocketSend (serialized (example_transport 13 True) example_runtime
             (String ''xxxxxxxxxxx'')) (Num 9000) ''localhost'' False], None)
   \<and> kMaxChunks < numChunks (example_transport 13 True)
         (length (serialized (example_transport 13 True) example_runtime
            (String (replicate 127 CHR ''x''))))
   \<and> UdpTransport_send (example_transport 13 True) example_runtime
         (String (replicate 127 CHR ''x'')) []
       = ([Emit (Error ''message too large'')], None)
   \<and> bufferSize (example_transport 13 True)
       < length (serialized (example_transport 13 True) example_runtime example_message)
   \<and> numChunks (example_transport 13 True) 14 \<le> kMaxChunks
   \<and> numChunks (example_transport 13 True) 14 \<le> successes (replicate 14 None)
   \<and> length (datagrams (fst (UdpTransport_send (example_transport 13 True) example_runtime
         example_message (replicate 14 None)))) = 14
   \<and> length (datagrams (fst (UdpTransport_send (example_transport 13 True) example_runtime
         example_message [None, None]))) = 3"
proof -
  let ?t = "example_transport 13 True"
  have h1: "kChunkHeaderSize < bufferSize ?t" by code_simp
  have h2: "udp_socket ?t = Some ()" by code_simp
  have h3: "udp_client ?t = Some ()" by code_simp
  have s1: "length (serialized ?t example_runtime (String ''xxxxxxxxxxx'')) \<le> bufferSize ?t"
    by code_simp
  have s2: "udp_port ?t = Num 9000" "udp_host ?t = ''localhost''" by code_simp+
  have l1: "bufferSize ?t < length (serialized ?t example_runtime
              (String (replicate 127 CHR ''x'')))" by code_simp
  have l2: "kMaxChunks < numChunks ?t (length (serialized ?t example_runtime
              (String (replicate 127 CHR ''x''))))" by code_simp
  have L: "14 = length (serialized ?t example_runtime example_message)" by code_simp
  have c1: "bufferSize ?t < 14" by code_simp
  have c2: "numChunks ?t 14 \<le> kMaxChunks" by code_simp
  have c3: "numChunks ?t 14 \<le> successes (replicate 14 None)" by code_simp
  have c4: "numChunks ?t 14 = 14" by code_simp
  have c5: "min (numChunks ?t 14) (successes [None, None] + 1) = 3" by code_simp
  have c6: "reuseBuffer ?t" by code_simp
  from send_dispatch_count [OF h1 h2 h3 refl refl, of example_runtime "String ''xxxxxxxxxxx''" "[]"]
    s1 s2
  have a: "UdpTransport_send ?t example_runtime (String ''xxxxxxxxxxx'') []
       = ([SocketSend (serialized ?t example_runtime (String ''xxxxxxxxxxx''))
             (Num 9000) ''localhost'' False], None)" by simp
  from send_dispatch_count [OF h1 h2 h3 refl refl, of example_runtime
      "String (replicate 127 CHR ''x'')" "[]"] l1 l2
  have b: "UdpTransport_send ?t example_runtime (String (replicate 127 CHR ''x'')) []
       = ([Emit (Error ''message too large'')], None)" by blast
  from send_dispatch_count [OF h1 h2 h3 L refl, of "replicate 14 None"] c1 c2 c3 c4
  have c: "length (datagrams (fst (UdpTransport_send ?t example_runtime example_message
              (replicate 14 None)))) = 14" by simp
  from send_dispatch_count [OF h1 h2 h3 L refl, of "[None, None]"] c1 c2 c5 c6
  have d: "length (datagrams (fst (UdpTransport_send ?t example_runtime example_message
              [None, None]))) = 3" by simp
  show ?thesis using h1 h2 h3 s1 a l2 b c1 c2 c3 c d L by simp
qed

text \<open>
  Claim C2 as stated fails when a write fails: the test that forwards errors of the dgram
  module sends the fourteen-byte message through a buffer of 13 bytes, fails the first
  write, and sees one datagram, not fourteen.
\<close>

theorem send_dispatch_count_counterexample:
  "bufferSize (example_transport 13 True)
     < length (serialized (example_transport 13 True) example_runtime example_message)
   \<and> numChunks (example_transport 13 True)
         (length (serialized (example_transport 13 True) example_runtime example_message)) = 14
   \<and> 14 \<le> kMaxChunks
   \<and> UdpTransport_send (example_transport 13 True) example_runtime example_message
         [Some (Error ''test error'')]
       = ([SocketSend [0x1e, 0x0f, 1, 2, 3, 4, 5, 6, 7, 8, 0, 14, 0x22] (Num 9000)
             ''localhost'' True,
           Emit (Error ''test error'')], None)
   \<and> length (datagrams (fst (UdpTransport_send (example_transport 13 True) example_runtime
         example_message [Some (Error ''test error'')])))
       \<noteq> numChunks (example_transport 13 True)
           (length (serialized (example_transport 13 True) example_runtime example_message))"
  by code_simp

text \<open>
  Claim C5. With a reused buffer the fragments of a chunked message go out one at a time:
  when \<^verbatim>\<open>k\<close> writes have completed without error, exactly the fragments 0 to \<^verbatim>\<open>k\<close>
  have been dispatched (fragment 0 alone before any callback has run), each with a
  callback, and one callback is pending while fragments remain. When a write fails, its
  error is emitted once, after the fragments dispatched so far, nothing is pending and no
  later outcome dispatches anything or changes what was sent.
\<close>

theorem reuse_dispatch_sequential:
  assumes hdr: "kChunkHeaderSize < bufferSize t"
    and sock: "udp_socket t = Some s" and cl: "udp_client t = Some c"
    and big: "bufferSize t < length (serialized t rt message)"
    and cnt: "numChunks t (length (serialized t rt message)) \<le> kMaxChunks"
    and L: "L = length (serialized t rt message)"
    and reuse: "reuseBuffer t"
    and r: "r = UdpTransport_send t rt message outcomes"
  shows "map sequenceNumber (datagrams (fst r))
           = [0 ..< min (numChunks t L) (successes outcomes + 1)]
       \<and> fst r = map (\<lambda>d. SocketSend d (udp_port t) (udp_host t) True) (datagrams (fst r))
                 @ map Emit (emitted (fst r))
       \<and> emitted (fst r)
           = (if successes outcomes < length outcomes \<and> successes outcomes < numChunks t L
              then [the (outcomes ! successes outcomes)] else [])
       \<and> (snd r \<noteq> None \<longleftrightarrow>
            successes outcomes = length outcomes \<and> length outcomes < numChunks t L)"
proof -
  have a: "map sequenceNumber (datagrams (fst r))
           = [0 ..< min (numChunks t L) (successes outcomes + 1)]"
    using send_chunked_fragments(1) [OF hdr sock big cnt L refl, of outcomes] reuse
    by (simp add: r)
  from send_chunked_reuse [OF big cnt reuse hdr, of outcomes]
  obtain buf where "UdpTransport_send t rt message outcomes
                 = run_send t (serialized t rt message) buf 0 L outcomes"
    using L by auto
  then have b: "fst r = map (\<lambda>d. SocketSend d (udp_port t) (udp_host t) True)
                         (datagrams (fst r)) @ map Emit (emitted (fst r))"
    using run_send_shape [OF sock cl, of "serialized t rt message" buf 0 L outcomes]
    by (simp add: r)
  have c: "emitted (fst r)
           = (if successes outcomes < length outcomes \<and> successes outcomes < numChunks t L
              then [the (outcomes ! successes outcomes)] else [])"
    using send_chunked_errors(2) [OF hdr sock cl big cnt L, of outcomes] reuse
    by (simp add: r)
  have d: "snd r \<noteq> None \<longleftrightarrow>
            successes outcomes = length outcomes \<and> length outcomes < numChunks t L"
    using send_chunked_errors(3) [OF hdr sock cl big cnt L, of outcomes] reuse
    by (simp add: r)
  show ?thesis using a b c d by blast
qed

theorem reuse_dispatch_sequential_witness:
  "kChunkHeaderSize < bufferSize (example_transport 13 True)
   \<and> udp_socket (example_transport 13 True) = Some ()
   \<and> udp_client (example_transport 13 True) = Some ()
   \<and> bufferSize (example_transport 13 True)
       < length (serialized (example_transport 13 True) example_runtime example_message)
   \<and> numChunks (example_transport 13 True) 14 \<le> kMaxChunks
   \<and> reuseBuffer (example_transport 13 True)
   \<and> map sequenceNumber (datagrams (fst (UdpTransport_send (example_transport 13 True)
         example_runtime example_message []))) = [0]
   \<and> snd (UdpTransport_send (example_transport 13 True) example_runtime example_message [])
       \<noteq> None
   \<and> map sequenceNumber (datagrams (fst (UdpTransport_send (example_transport 13 True)
         example_runtime example_message [None, Some (Error ''test error''), None]))) = [0, 1]
   \<and> emitted (fst (UdpTransport_send (example_transport 13 True)
         example_runtime example_message [None, Some (Error ''test error''), None]))
       = [Error ''test error'']
   \<and> snd (UdpTransport_send (example_transport 13 True)
         example_runtime example_message [None, Some (Error ''test error''), None]) = None"
proof -
  let ?t = "example_transport 13 True"
  let ?os = "[None, Some (Error ''test error''), None]"
  have h1: "kChunkHeaderSize < bufferSize ?t" by code_simp
  have h2: "udp_socket ?t = Some ()" by code_simp
  have h3: "udp_client ?t = Some ()" by code_simp
  have h4: "bufferSize ?t < length (serialized ?t example_runtime example_message)" by code_simp
  have h5: "numChunks ?t (length (serialized ?t example_runtime example_message)) \<le> kMaxChunks"
    by code_simp
  have h5': "numChunks ?t 14 \<le> kMaxChunks" by code_simp
  have L: "14 = length (serialized ?t example_runtime example_message)" by code_simp
  have h6: "reuseBuffer ?t" by code_simp
  have n: "numChunks ?t 14 = 14" by code_simp
  have s0: "successes ([] :: error option list) = 0" by code_simp
  have s1: "successes ?os = 1" by code_simp
  have e1: "the (?os ! 1) = Error ''test error''" by code_simp
  note nil = reuse_dispatch_sequential [OF h1 h2 h3 h4 h5 L h6 refl, of "[]"]
  note err = reuse_dispatch_sequential [OF h1 h2 h3 h4 h5 L h6 refl, of ?os]
  have a: "map sequenceNumber (datagrams (fst (UdpTransport_send ?t example_runtime
             example_message []))) = [0]"
    using nil by (simp add: n s0)
  have b: "snd (UdpTransport_send ?t example_runtime example_message []) \<noteq> None"
    using nil by (simp add: n s0)
  have c: "map sequenceNumber (datagrams (fst (UdpTransport_send ?t example_runtime
             example_message ?os))) = [0, 1]"
    using err by (simp add: n s1 upt_rec)
  have d: "emitted (fst (UdpTransport_send ?t example_runtime example_message ?os))
             = [Error ''test error'']"
    using err e1 by (simp add: n s1)
  have e: "snd (UdpTransport_send ?t example_runtime example_message ?os) = None"
    using err by (simp add: n s1)
  show ?thesis using h1 h2 h3 h4 h5' h6 a b c d e by blast
qed

text \<open>
  Claim C1 does not hold of the code. A message of 23 bytes through a buffer of 22 bytes is
  cut into 3 chunks of 20 bytes, 8 bytes of payload each. The loop that does not reuse the
  buffer steps through the message by \<^verbatim>\<open>maxDataPerChunk = 10\<close> and so never sends the
  bytes 8, 9, 18 and 19, and the last payload ends in five bytes of fresh memory. The branch
  that reuses the buffer sends every byte, and then one stale byte that the previous
  fragment left at the end of the buffer.
\<close>

theorem chunk_payloads_differ_from_message:
  "serialized (example_transport 22 False) example_runtime (String ''abcdefghijklmnopqrstu'')
     = Buffer_from (CHR 0x22 # ''abcdefghijklmnopqrstu'' @ [CHR 0x22])
   \<and> concat (map payload (datagrams (fst (UdpTransport_send (example_transport 22 False)
         example_runtime (String ''abcdefghijklmnopqrstu'') []))))
       = Buffer_from (CHR 0x22 # ''abcdefg'' @ ''jklmnopq'' @ ''tu'' @ [CHR 0x22])
         @ replicate 5 0xff
   \<and> concat (map payload (datagrams (fst (UdpTransport_send (example_transport 22 True)
         example_runtime (String ''abcdefghijklmnopqrstu'') (replicate 3 None)))))
       = Buffer_from (CHR 0x22 # ''abcdefghijklmnopqrstu'' @ [CHR 0x22]) @ Buffer_from ''o''
   \<and> map sequenceNumber (datagrams (fst (UdpTransport_send (example_transport 22 False)
         example_runtime (String ''abcdefghijklmnopqrstu'') []))) = [0, 1, 2]
   \<and> map sequenceNumber (datagrams (fst (UdpTransport_send (example_transport 22 True)
         example_runtime (String ''abcdefghijklmnopqrstu'') (replicate 3 None)))) = [0, 1, 2]"
  by code_simp

lemma written_append: "written (xs @ ys) = written xs @ written ys"
  by (induction xs rule: written.induct) simp_all

lemma written_map_SocketWrite [simp]: "written (map SocketWrite xs) = xs"
  by (induction xs) simp_all

lemma emitted_map_SocketWrite [simp]: "emitted (map SocketWrite xs) = []"
  by (induction xs) simp_all

lemma thrown_map_SocketWrite [simp]: "thrown (map SocketWrite xs) = []"
  by (induction xs) simp_all

text \<open>
  The drain loop writes a prefix of the backlog and leaves the rest: it stops before entry
  \<^verbatim>\<open>n\<close> only because the write of entry \<^verbatim>\<open>n - 1\<close> was not accepted.
\<close>

lemma drain_loop_prefix:
  "\<exists>n \<le> length queue.
     drain_loop accepts i can queue
       = (if n = 0 then can else accepts (i + n - 1), drop n queue,
          map SocketWrite (take n queue))
     \<and> (\<forall>j. j + 1 < n \<longrightarrow> accepts (i + j))
     \<and> (n < length queue \<longrightarrow> \<not> (if n = 0 then can else accepts (i + n - 1)))
     \<and> (can \<and> queue \<noteq> [] \<longrightarrow> 0 < n)
     \<and> (0 < n \<longrightarrow> can)"
proof (induction queue arbitrary: i can)
  case Nil
  show ?case by simp
next
  case (Cons data queue)
  show ?case
  proof (cases can)
    case False
    then show ?thesis by (intro exI [of _ 0]) simp
  next
    case True
    from Cons [of "i + 1" "accepts i"]
    obtain n where n: "n \<le> length queue"
      "drain_loop accepts (i + 1) (accepts i) queue
         = (if n = 0 then accepts i else accepts (i + 1 + n - 1), drop n queue,
            map SocketWrite (take n queue))"
      "\<forall>j. j + 1 < n \<longrightarrow> accepts (i + 1 + j)"
      "n < length queue \<longrightarrow> \<not> (if n = 0 then accepts i else accepts (i + 1 + n - 1))"
      "accepts i \<and> queue \<noteq> [] \<longrightarrow> 0 < n"
      "0 < n \<longrightarrow> accepts i"
      by blast
    have all: "accepts (i + j)" if "j + 1 < Suc n" for j
    proof (cases j)
      case 0
      with that n(6) show ?thesis by simp
    next
      case (Suc j')
      with that n(3) show ?thesis by (auto simp: )
    qed
    show ?thesis
      using n True all
      by (intro exI [of _ "Suc n"]) (auto simp: )
  qed
qed

lemma tcp_invariant_backlog:
  assumes "tcp_invariant t"
  shows "backlog t = Some (queued t)" and "length (queued t) \<le> maxBacklogSize t"
    and "canAcceptData t \<Longrightarrow> queued t = []"
    and "\<exists>s. tcp_socket t = Some s" and "\<exists>c. tcp_client t = Some c"
  using assms by (auto simp: tcp_invariant_def queued_def split: option.splits)

lemma send_step:
  assumes inv: "tcp_invariant t"
  shows "TcpTransport_send t rt accepted message
           = (if canAcceptData t then
                (t\<lparr>canAcceptData := accepted\<rparr>, [SocketWrite (frame rt message)])
              else if length (queued t) < maxBacklogSize t then
                (t\<lparr>backlog := Some (queued t @ [frame rt message])\<rparr>, [])
              else (t, [Emit (Error ''too many messages buffered'')]))"
    and "tcp_invariant (fst (TcpTransport_send t rt accepted message))"
proof -
  note b = tcp_invariant_backlog [OF inv]
  show eq: "TcpTransport_send t rt accepted message
           = (if canAcceptData t then
                (t\<lparr>canAcceptData := accepted\<rparr>, [SocketWrite (frame rt message)])
              else if length (queued t) < maxBacklogSize t then
                (t\<lparr>backlog := Some (queued t @ [frame rt message])\<rparr>, [])
              else (t, [Emit (Error ''too many messages buffered'')]))"
    using b(1) b(4) b(5) by (auto simp: TcpTransport_send_def Let_def)
  show "tcp_invariant (fst (TcpTransport_send t rt accepted message))"
    unfolding eq using inv b(2) b(3)
    by (auto simp: tcp_invariant_def queued_def split: option.splits)
qed

lemma drain_step:
  assumes inv: "tcp_invariant t"
  shows "\<exists>n \<le> length (queued t).
           TcpTransport_drain t accepts
             = (t\<lparr>canAcceptData := (n = 0 \<or> accepts (n - 1)),
                   backlog := Some (drop n (queued t))\<rparr>,
                map SocketWrite (take n (queued t)))
           \<and> (\<forall>j. j + 1 < n \<longrightarrow> accepts j)
           \<and> (n < length (queued t) \<longrightarrow> 0 < n \<and> \<not> accepts (n - 1))"
    and "tcp_invariant (fst (TcpTransport_drain t accepts))"
proof -
  note b = tcp_invariant_backlog [OF inv]
  from drain_loop_prefix [of "queued t" accepts 0 True]
  obtain n where n: "n \<le> length (queued t)"
    "drain_loop accepts 0 True (queued t)
       = (if n = 0 then True else accepts (n - 1), drop n (queued t),
          map SocketWrite (take n (queued t)))"
    "\<forall>j. j + 1 < n \<longrightarrow> accepts j"
    "n < length (queued t) \<longrightarrow> \<not> (if n = 0 then True else accepts (n - 1))"
    "queued t \<noteq> [] \<longrightarrow> 0 < n"
    by auto
  have eq: "TcpTransport_drain t accepts
             = (t\<lparr>canAcceptData := (n = 0 \<or> accepts (n - 1)),
                   backlog := Some (drop n (queued t))\<rparr>,
                map SocketWrite (take n (queued t)))"
  proof (cases "queued t = []")
    case True
    then show ?thesis using b(1) n(1) by (simp add: TcpTransport_drain_def Let_def)
  next
    case False
    then show ?thesis using b(1) b(4) n(2) n(5)
      by (auto simp: TcpTransport_drain_def Let_def)
  qed
  have stop: "n < length (queued t) \<longrightarrow> 0 < n \<and> \<not> accepts (n - 1)"
    using n(4) by (cases "n = 0") auto
  show "\<exists>n \<le> length (queued t).
           TcpTransport_drain t accepts
             = (t\<lparr>canAcceptData := (n = 0 \<or> accepts (n - 1)),
                   backlog := Some (drop n (queued t))\<rparr>,
                map SocketWrite (take n (queued t)))
           \<and> (\<forall>j. j + 1 < n \<longrightarrow> accepts j)
           \<and> (n < length (queued t) \<longrightarrow> 0 < n \<and> \<not> accepts (n - 1))"
    using n(1) eq n(3) stop by blast
  have "drop n (queued t) = []" if "n = 0 \<or> accepts (n - 1)"
    using that stop n(1) n(5) by (cases "n < length (queued t)") auto
  then show "tcp_invariant (fst (TcpTransport_drain t accepts))"
    unfolding eq using inv b(2)
    by (auto simp: tcp_invariant_def split: option.splits)
qed

lemma drain_step_written:
  assumes inv: "tcp_invariant t"
  shows "written (snd (TcpTransport_drain t accepts)) @ queued (fst (TcpTransport_drain t accepts))
           = queued t"
    and "emitted (snd (TcpTransport_drain t accepts)) = []"
    and "thrown (snd (TcpTransport_drain t accepts)) = []"
proof -
  from drain_step(1) [OF inv, of accepts]
  obtain n where "TcpTransport_drain t accepts
             = (t\<lparr>canAcceptData := (n = 0 \<or> accepts (n - 1)),
                   backlog := Some (drop n (queued t))\<rparr>,
                map SocketWrite (take n (queued t)))"
    by blast
  then show "written (snd (TcpTransport_drain t accepts))
               @ queued (fst (TcpTransport_drain t accepts)) = queued t"
    and "emitted (snd (TcpTransport_drain t accepts)) = []"
    and "thrown (snd (TcpTransport_drain t accepts)) = []"
    by (simp_all add: queued_def)
qed

lemma tcp_run_fifo:
  assumes "tcp_invariant t"
  shows "tcp_invariant (fst (tcp_run rt accepts k t ops))
       \<and> thrown (snd (tcp_run rt accepts k t ops)) = []
       \<and> subseq (written (snd (tcp_run rt accepts k t ops)) @ queued (fst (tcp_run rt accepts k t ops)))
                 (queued t @ sent_frames rt ops)
       \<and> length (written (snd (tcp_run rt accepts k t ops)))
           + length (queued (fst (tcp_run rt accepts k t ops)))
           + length (emitted (snd (tcp_run rt accepts k t ops)))
           = length (queued t) + length (sent_frames rt ops)"
  using assms
proof (induction ops arbitrary: t k)
  case Nil
  then show ?case by simp
next
  case (Cons op ops)
  note inv = Cons.prems
  note b = tcp_invariant_backlog [OF inv]
  show ?case
  proof (cases op)
    case (Send message)
    let ?s = "TcpTransport_send t rt (accepts k) message"
    let ?k' = "k + length (written (snd ?s))"
    note eq = send_step(1) [OF inv, of rt "accepts k" message]
    have inv': "tcp_invariant (fst ?s)" by (rule send_step(2) [OF inv])
    note ih = Cons.IH [OF inv', of ?k']
    have run: "tcp_run rt accepts k t (op # ops)
                 = (fst (tcp_run rt accepts ?k' (fst ?s) ops),
                    snd ?s @ snd (tcp_run rt accepts ?k' (fst ?s) ops))"
      using Send by (simp add: split_def Let_def)
    consider (accepting) "canAcceptData t"
      | (backlogged) "\<not> canAcceptData t" "length (queued t) < maxBacklogSize t"
      | (dropped) "\<not> canAcceptData t" "\<not> length (queued t) < maxBacklogSize t"
      by blast
    then show ?thesis
    proof cases
      case accepting
      then have s: "?s = (t\<lparr>canAcceptData := accepts k\<rparr>, [SocketWrite (frame rt message)])"
        using eq by simp
      have q: "queued (fst ?s) = []" "queued t = []"
        using b(3) [OF accepting] by (simp_all add: s queued_def)
      show ?thesis unfolding run using ih q Send
        by (simp add: s written_append emitted_append thrown_append)
    next
      case backlogged
      then have s: "?s = (t\<lparr>backlog := Some (queued t @ [frame rt message])\<rparr>, [])"
        using eq by simp
      have q: "queued (fst ?s) = queued t @ [frame rt message]" by (simp add: s queued_def)
      show ?thesis unfolding run using ih q Send
        by (simp add: s written_append emitted_append thrown_append)
    next
      case dropped
      then have s: "?s = (t, [Emit (Error ''too many messages buffered'')])"
        using eq by simp
      have "subseq (queued t @ sent_frames rt ops) (queued t @ frame rt message # sent_frames rt ops)"
        by (simp add: subseq_append' list_emb_Cons)
      then have "subseq xs (queued t @ frame rt message # sent_frames rt ops)"
        if "subseq xs (queued t @ sent_frames rt ops)" for xs
        using that subseq_order.trans by blast
      then show ?thesis unfolding run using ih Send
        by (simp add: s written_append emitted_append thrown_append)
    qed
  next
    case Drain
    let ?d = "TcpTransport_drain t (\<lambda>i. accepts (k + i))"
    let ?k' = "k + length (written (snd ?d))"
    have inv': "tcp_invariant (fst ?d)" by (rule drain_step(2) [OF inv])
    note w = drain_step_written [OF inv, of "\<lambda>i. accepts (k + i)"]
    note ih = Cons.IH [OF inv', of ?k']
    have run: "tcp_run rt accepts k t (op # ops)
                 = (fst (tcp_run rt accepts ?k' (fst ?d) ops),
                    snd ?d @ snd (tcp_run rt accepts ?k' (fst ?d) ops))"
      using Drain by (simp add: split_def Let_def)
    let ?r = "tcp_run rt accepts ?k' (fst ?d) ops"
    have "subseq (written (snd ?d) @ (written (snd ?r) @ queued (fst ?r)))
                 (written (snd ?d) @ (queued (fst ?d) @ sent_frames rt ops))"
      using ih by (simp add: subseq_append')
    then have sub: "subseq (written (snd ?d) @ written (snd ?r) @ queued (fst ?r))
                 (queued t @ sent_frames rt ops)"
      using w(1) by (metis append.assoc)
    have "length (queued t) = length (written (snd ?d)) + length (queued (fst ?d))"
      using w(1) by (metis length_append)
    then show ?thesis unfolding run using ih sub w(2) w(3) Drain
      by (simp add: written_append emitted_append thrown_append)
  qed
qed

lemma tcp_run_maxBacklogSize:
  assumes "tcp_invariant t"
  shows "maxBacklogSize (fst (tcp_run rt accepts k t ops)) = maxBacklogSize t"
  using assms
proof (induction ops arbitrary: t k)
  case Nil
  show ?case by simp
next
  case (Cons op ops)
  note inv = Cons.prems
  show ?case
  proof (cases op)
    case (Send message)
    let ?s = "TcpTransport_send t rt (accepts k) message"
    have "maxBacklogSize (fst ?s) = maxBacklogSize t"
      by (simp add: send_step(1) [OF inv])
    with Cons.IH [OF send_step(2) [OF inv, of rt "accepts k" message],
        of "k + length (written (snd ?s))"]
    show ?thesis using Send by (simp add: split_def Let_def)
  next
    case Drain
    let ?d = "TcpTransport_drain t (\<lambda>i. accepts (k + i))"
    from drain_step(1) [OF inv, of "\<lambda>i. accepts (k + i)"]
    have "maxBacklogSize (fst ?d) = maxBacklogSize t" by auto
    with Cons.IH [OF drain_step(2) [OF inv, of "\<lambda>i. accepts (k + i)"],
        of "k + length (written (snd ?d))"]
    show ?thesis using Drain by (simp add: split_def Let_def)
  qed
qed

text \<open>
  Claim C6. On a connected transport: a \<^verbatim>\<open>send\<close> while the stream accepts data writes
  the frame at once and keeps what the write returned as the flag for the next call; a
  \<^verbatim>\<open>send\<close> under backpressure puts the frame at the end of the backlog; the drain
  handler writes a prefix of the backlog in order, and stops short of the whole backlog
  only after a write that was not accepted, leaving the rest queued. Over any run of
  \<^verbatim>\<open>send\<close> calls and drain events, what has been written followed by what is still
  queued is the frames of the calls in call order, less the frames that were dropped with
  an error, and nothing throws.
\<close>

theorem stream_writes_in_call_order:
  assumes inv: "tcp_invariant t"
    and run: "run = tcp_run rt accepts k t ops"
  shows "(canAcceptData t \<longrightarrow>
            TcpTransport_send t rt accepted message
              = (t\<lparr>canAcceptData := accepted\<rparr>, [SocketWrite (frame rt message)]))
       \<and> (\<not> canAcceptData t \<and> length (queued t) < maxBacklogSize t \<longrightarrow>
            TcpTransport_send t rt accepted message
              = (t\<lparr>backlog := Some (queued t @ [frame rt message])\<rparr>, []))
       \<and> (\<exists>n \<le> length (queued t).
            TcpTransport_drain t acc
              = (t\<lparr>canAcceptData := (n = 0 \<or> acc (n - 1)),
                    backlog := Some (drop n (queued t))\<rparr>,
                 map SocketWrite (take n (queued t)))
            \<and> (\<forall>j. j + 1 < n \<longrightarrow> acc j)
            \<and> (n < length (queued t) \<longrightarrow> 0 < n \<and> \<not> acc (n - 1)))
       \<and> subseq (written (snd run) @ queued (fst run)) (queued t @ sent_frames rt ops)
       \<and> length (written (snd run)) + length (queued (fst run)) + length (emitted (snd run))
           = length (queued t) + length (sent_frames rt ops)
       \<and> (emitted (snd run) = [] \<longrightarrow>
            written (snd run) @ queued (fst run) = queued t @ sent_frames rt ops)
       \<and> thrown (snd run) = []"
proof -
  note fifo = tcp_run_fifo [OF inv, of rt accepts k ops, folded run]
  have same: "written (snd run) @ queued (fst run) = queued t @ sent_frames rt ops"
    if "emitted (snd run) = []"
  proof (rule subseq_same_length)
    show "subseq (written (snd run) @ queued (fst run)) (queued t @ sent_frames rt ops)"
      using fifo by simp
    show "length (written (snd run) @ queued (fst run))
            = length (queued t @ sent_frames rt ops)"
      using fifo that by simp
  qed
  show ?thesis
    using send_step(1) [OF inv, of rt accepted message] drain_step(1) [OF inv, of acc]
      fifo same
    by (intro conjI impI) simp_all
qed

text \<open>
  Claim C7. On a connected transport whose stream does not accept data, \<^verbatim>\<open>send\<close> appends
  the frame to the backlog when the backlog is shorter than \<^verbatim>\<open>maxBacklogSize\<close>; otherwise
  it leaves the transport as it is and emits the error \<^verbatim>\<open>too many messages buffered\<close>. It
  writes nothing and throws nothing, and the backlog stays within \<^verbatim>\<open>maxBacklogSize\<close>,
  after this call and after any run of calls and drain events.
\<close>

theorem backpressured_send_bounded:
  assumes inv: "tcp_invariant t" and bp: "\<not> canAcceptData t"
    and r: "r = TcpTransport_send t rt accepted message"
  shows "(length (queued t) < maxBacklogSize t \<longrightarrow>
            r = (t\<lparr>backlog := Some (queued t @ [frame rt message])\<rparr>, []))
       \<and> (\<not> length (queued t) < maxBacklogSize t \<longrightarrow>
            r = (t, [Emit (Error ''too many messages buffered'')]))
       \<and> thrown (snd r) = [] \<and> written (snd r) = []
       \<and> length (queued (fst r)) \<le> maxBacklogSize t
       \<and> length (queued (fst (tcp_run rt accepts k t ops))) \<le> maxBacklogSize t
       \<and> thrown (snd (tcp_run rt accepts k t ops)) = []"
proof -
  note eq = send_step(1) [OF inv, of rt accepted message, folded r]
  note b = tcp_invariant_backlog [OF inv]
  have a: "thrown (snd r) = [] \<and> written (snd r) = []
            \<and> length (queued (fst r)) \<le> maxBacklogSize t"
    using bp b(2) by (simp add: eq queued_def)
  have "tcp_invariant (fst (tcp_run rt accepts k t ops))"
    using tcp_run_fifo [OF inv, of rt accepts k ops] by simp
  then have "length (queued (fst (tcp_run rt accepts k t ops)))
               \<le> maxBacklogSize (fst (tcp_run rt accepts k t ops))"
    by (rule tcp_invariant_backlog(2))
  then have c: "length (queued (fst (tcp_run rt accepts k t ops))) \<le> maxBacklogSize t"
    by (simp add: tcp_run_maxBacklogSize [OF inv])
  have d: "thrown (snd (tcp_run rt accepts k t ops)) = []"
    using tcp_run_fifo [OF inv, of rt accepts k ops] by simp
  show ?thesis using eq bp a c d by simp
qed

text \<open>
  Claim C8, as amended. \<^verbatim>\<open>close()\<close> of either transport never throws and emits nothing.
  Called on a transport without a socket (before \<^verbatim>\<open>connect()\<close>, or after a first
  \<^verbatim>\<open>close()\<close>) it touches no socket; the datagram transport is left as it is, and the
  stream transport too, except that its reference to the client is cleared. A second call
  changes nothing. On a connected stream transport it ends the socket and drops the backlog:
  nothing is written and nothing is emitted.
\<close>

theorem close_idempotent:
  "(udp_socket u = None \<longrightarrow> UdpTransport_close u = (u, []))
   \<and> UdpTransport_close (fst (UdpTransport_close u)) = (fst (UdpTransport_close u), [])
   \<and> thrown (snd (UdpTransport_close u)) = [] \<and> emitted (snd (UdpTransport_close u)) = []
   \<and> (tcp_socket t = None \<longrightarrow> TcpTransport_close t = (t\<lparr>tcp_client := None\<rparr>, []))
   \<and> TcpTransport_close (fst (TcpTransport_close t)) = (fst (TcpTransport_close t), [])
   \<and> thrown (snd (TcpTransport_close t)) = [] \<and> emitted (snd (TcpTransport_close t)) = []
   \<and> written (snd (TcpTransport_close t)) = []
   \<and> (tcp_socket t \<noteq> None \<longrightarrow>
        snd (TcpTransport_close t) = [SocketEnd] \<and> backlog (fst (TcpTransport_close t)) = None)
   \<and> (UdpTransport_constructor options client = Inr u \<longrightarrow> UdpTransport_close u = (u, []))
   \<and> (TcpTransport_constructor options client = Inr t \<longrightarrow>
        TcpTransport_close t = (t\<lparr>tcp_client := None\<rparr>, []))"
proof -
  have cu: "udp_socket u = None" if "UdpTransport_constructor options client = Inr u"
    using that
    by (auto simp: UdpTransport_constructor_def Let_def
        split: js_value.splits if_splits)
  have ct: "tcp_socket t = None" if "TcpTransport_constructor options client = Inr t"
    using that
    by (auto simp: TcpTransport_constructor_def Let_def
        split: js_value.splits if_splits)
  have ucl: "udp_socket u = None \<Longrightarrow> UdpTransport_close u = (u, [])"
    by (simp add: UdpTransport_close_def)
  have tcl: "tcp_socket t = None \<Longrightarrow> TcpTransport_close t = (t\<lparr>tcp_client := None\<rparr>, [])"
    by (simp add: TcpTransport_close_def)
  have u2: "UdpTransport_close (fst (UdpTransport_close u)) = (fst (UdpTransport_close u), [])"
    by (cases "udp_socket u") (simp_all add: UdpTransport_close_def)
  have t2: "TcpTransport_close (fst (TcpTransport_close t)) = (fst (TcpTransport_close t), [])"
    by (cases "tcp_socket t") (simp_all add: TcpTransport_close_def)
  have ue: "thrown (snd (UdpTransport_close u)) = [] \<and> emitted (snd (UdpTransport_close u)) = []"
    by (cases "udp_socket u") (simp_all add: UdpTransport_close_def)
  have te: "thrown (snd (TcpTransport_close t)) = [] \<and> emitted (snd (TcpTransport_close t)) = []
            \<and> written (snd (TcpTransport_close t)) = []"
    by (cases "tcp_socket t") (simp_all add: TcpTransport_close_def)
  have tb: "snd (TcpTransport_close t) = [SocketEnd] \<and> backlog (fst (TcpTransport_close t)) = None"
    if "tcp_socket t \<noteq> None"
    using that by (auto simp: TcpTransport_close_def)
  show ?thesis using cu ct ucl tcl u2 t2 ue te tb by (intro conjI impI) simp_all
qed

text \<open>
  Claim C8 as stated fails for the stream transport before \<^verbatim>\<open>connect()\<close>: its
  \<^verbatim>\<open>close()\<close> assigns \<^verbatim>\<open>this.client = null\<close> before it looks at the socket, so the call is
  not a no-op, while the datagram transport's \<^verbatim>\<open>close()\<close> looks at the socket first and
  leaves the transport as it is. The difference shows once the transport is connected
  afterwards: with no room in the backlog, the second \<^verbatim>\<open>send\<close> under backpressure emits
  the overflow error on a transport that was not closed before, and throws a
  \<^verbatim>\<open>TypeError\<close> on one that was.
\<close>

theorem close_idempotent_counterexample:
  "TcpTransport_constructor example_options (Some ())
     = Inr (example_tcp\<lparr>maxBacklogSize := 1024, tcp_socket := None\<rparr>)
   \<and> tcp_socket (example_tcp\<lparr>maxBacklogSize := 1024, tcp_socket := None\<rparr>) = None
   \<and> TcpTransport_close (example_tcp\<lparr>maxBacklogSize := 1024, tcp_socket := None\<rparr>)
       \<noteq> (example_tcp\<lparr>maxBacklogSize := 1024, tcp_socket := None\<rparr>, [])
   \<and> tcp_client (example_tcp\<lparr>maxBacklogSize := 1024, tcp_socket := None\<rparr>) = Some ()
   \<and> tcp_client (fst (TcpTransport_close
         (example_tcp\<lparr>maxBacklogSize := 1024, tcp_socket := None\<rparr>))) = None
   \<and> UdpTransport_close ((example_transport 13 True)\<lparr>udp_socket := None\<rparr>)
       = ((example_transport 13 True)\<lparr>udp_socket := None\<rparr>, [])
   \<and> snd (TcpTransport_send
         (fst (TcpTransport_send
            (fst (TcpTransport_connect (example_tcp\<lparr>maxBacklogSize := 0, tcp_socket := None\<rparr>)))
            example_runtime False (String ''a'')))
         example_runtime False (String ''b''))
       = [Emit (Error ''too many messages buffered'')]
   \<and> snd (TcpTransport_send
         (fst (TcpTransport_send
            (fst (TcpTransport_connect (fst (TcpTransport_close
               (example_tcp\<lparr>maxBacklogSize := 0, tcp_socket := None\<rparr>)))))
            example_runtime False (String ''a'')))
         example_runtime False (String ''b''))
       = [Throws (TypeError ''Cannot read property emit of null'')]"
proof -
  have a: "TcpTransport_constructor example_options (Some ())
             = Inr (example_tcp\<lparr>maxBacklogSize := 1024, tcp_socket := None\<rparr>)"
    by (simp add: TcpTransport_constructor_def example_options_def with_default_def
        example_tcp_def)
  have b: "tcp_socket (example_tcp\<lparr>maxBacklogSize := 1024, tcp_socket := None\<rparr>) = None"
    by simp
  have c: "tcp_client (example_tcp\<lparr>maxBacklogSize := 1024, tcp_socket := None\<rparr>) = Some ()"
    by (simp add: example_tcp_def)
  have d: "tcp_client (fst (TcpTransport_close
             (example_tcp\<lparr>maxBacklogSize := 1024, tcp_socket := None\<rparr>))) = None"
    by (simp add: TcpTransport_close_def)
  have e: "TcpTransport_close (example_tcp\<lparr>maxBacklogSize := 1024, tcp_socket := None\<rparr>)
             \<noteq> (example_tcp\<lparr>maxBacklogSize := 1024, tcp_socket := None\<rparr>, [])"
  proof
    assume "TcpTransport_close (example_tcp\<lparr>maxBacklogSize := 1024, tcp_socket := None\<rparr>)
              = (example_tcp\<lparr>maxBacklogSize := 1024, tcp_socket := None\<rparr>, [])"
    then have "tcp_client (fst (TcpTransport_close
                 (example_tcp\<lparr>maxBacklogSize := 1024, tcp_socket := None\<rparr>)))
               = tcp_client (example_tcp\<lparr>maxBacklogSize := 1024, tcp_socket := None\<rparr>)"
      by simp
    with c d show False by simp
  qed
  have f: "UdpTransport_close ((example_transport 13 True)\<lparr>udp_socket := None\<rparr>)
             = ((example_transport 13 True)\<lparr>udp_socket := None\<rparr>, [])"
    by (simp add: UdpTransport_close_def)
  have g: "snd (TcpTransport_send
         (fst (TcpTransport_send
            (fst (TcpTransport_connect (example_tcp\<lparr>maxBacklogSize := 0, tcp_socket := None\<rparr>)))
            example_runtime False (String ''a'')))
         example_runtime False (String ''b''))
       = [Emit (Error ''too many messages buffered'')]"
    by code_simp
  have h: "snd (TcpTransport_send
         (fst (TcpTransport_send
            (fst (TcpTransport_connect (fst (TcpTransport_close
               (example_tcp\<lparr>maxBacklogSize := 0, tcp_socket := None\<rparr>)))))
            example_runtime False (String ''a'')))
         example_runtime False (String ''b''))
       = [Throws (TypeError ''Cannot read property emit of null'')]"
    by code_simp
  show ?thesis using a b c d e f g h by blast
qed

theorem stream_writes_in_call_order_witness:
  "tcp_invariant example_tcp
   \<and> canAcceptData example_tcp
   \<and> TcpTransport_send example_tcp example_runtime False (String ''a'')
       = (example_tcp\<lparr>canAcceptData := False\<rparr>,
          [SocketWrite (frame example_runtime (String ''a''))])
   \<and> emitted (snd (tcp_run example_runtime (\<lambda>k. 0 < k) 0 example_tcp
         [Send (String ''a''), Send (String ''b''), Send (String ''c''), Drain,
          Send (String ''d'')])) = []
   \<and> written (snd (tcp_run example_runtime (\<lambda>k. 0 < k) 0 example_tcp
         [Send (String ''a''), Send (String ''b''), Send (String ''c''), Drain,
          Send (String ''d'')]))
       @ queued (fst (tcp_run example_runtime (\<lambda>k. 0 < k) 0 example_tcp
         [Send (String ''a''), Send (String ''b''), Send (String ''c''), Drain,
          Send (String ''d'')]))
       = map (frame example_runtime) [String ''a'', String ''b'', String ''c'', String ''d'']
   \<and> written (snd (tcp_run example_runtime (\<lambda>k. 0 < k) 0 example_tcp
         [Send (String ''a''), Send (String ''b''), Send (String ''c'')]))
       = [frame example_runtime (String ''a'')]
   \<and> queued (fst (tcp_run example_runtime (\<lambda>k. 0 < k) 0 example_tcp
         [Send (String ''a''), Send (String ''b''), Send (String ''c'')]))
       = [frame example_runtime (String ''b''), frame example_runtime (String ''c'')]"
proof -
  let ?ops = "[Send (String ''a''), Send (String ''b''), Send (String ''c''), Drain,
               Send (String ''d'')]"
  let ?run = "tcp_run example_runtime (\<lambda>k. 0 < k) 0 example_tcp ?ops"
  have inv: "tcp_invariant example_tcp" by code_simp
  have can: "canAcceptData example_tcp" by code_simp
  have em: "emitted (snd ?run) = []" by code_simp
  have q: "queued example_tcp = []" by code_simp
  have fr: "sent_frames example_runtime ?ops
              = map (frame example_runtime)
                  [String ''a'', String ''b'', String ''c'', String ''d'']" by simp
  have w3: "written (snd (tcp_run example_runtime (\<lambda>k. 0 < k) 0 example_tcp
              [Send (String ''a''), Send (String ''b''), Send (String ''c'')]))
            = [frame example_runtime (String ''a'')]" by code_simp
  have q3: "queued (fst (tcp_run example_runtime (\<lambda>k. 0 < k) 0 example_tcp
              [Send (String ''a''), Send (String ''b''), Send (String ''c'')]))
            = [frame example_runtime (String ''b''), frame example_runtime (String ''c'')]"
    by code_simp
  note inst = stream_writes_in_call_order [where t = example_tcp and rt = example_runtime
      and accepts = "\<lambda>k. 0 < k" and k = 0 and ops = ?ops and accepted = False
      and message = "String ''a''", OF inv refl]
  from inst can
  have a: "TcpTransport_send example_tcp example_runtime False (String ''a'')
       = (example_tcp\<lparr>canAcceptData := False\<rparr>,
          [SocketWrite (frame example_runtime (String ''a''))])" by blast
  from inst em
  have "written (snd ?run) @ queued (fst ?run)
          = queued example_tcp @ sent_frames example_runtime ?ops" by blast
  then have b: "written (snd ?run) @ queued (fst ?run)
          = map (frame example_runtime)
              [String ''a'', String ''b'', String ''c'', String ''d'']"
    by (simp only: q fr append_Nil)
  show ?thesis using inv can a em b w3 q3 by blast
qed

theorem backpressured_send_bounded_witness:
  "tcp_invariant (example_tcp\<lparr>canAcceptData := False\<rparr>)
   \<and> \<not> canAcceptData (example_tcp\<lparr>canAcceptData := False\<rparr>)
   \<and> length (queued (example_tcp\<lparr>canAcceptData := False\<rparr>))
       < maxBacklogSize (example_tcp\<lparr>canAcceptData := False\<rparr>)
   \<and> TcpTransport_send (example_tcp\<lparr>canAcceptData := False\<rparr>) example_runtime True
         (String ''a'')
       = (example_tcp\<lparr>canAcceptData := False,
                      backlog := Some [frame example_runtime (String ''a'')]\<rparr>, [])
   \<and> tcp_invariant (example_tcp\<lparr>canAcceptData := False,
         backlog := Some [frame example_runtime (String ''a''),
                          frame example_runtime (String ''b'')]\<rparr>)
   \<and> TcpTransport_send (example_tcp\<lparr>canAcceptData := False,
         backlog := Some [frame example_runtime (String ''a''),
                          frame example_runtime (String ''b'')]\<rparr>) example_runtime True
         (String ''c'')
       = (example_tcp\<lparr>canAcceptData := False,
            backlog := Some [frame example_runtime (String ''a''),
                             frame example_runtime (String ''b'')]\<rparr>,
          [Emit (Error ''too many messages buffered'')])"
proof -
  let ?t1 = "example_tcp\<lparr>canAcceptData := False\<rparr>"
  let ?t2 = "example_tcp\<lparr>canAcceptData := False,
         backlog := Some [frame example_runtime (String ''a''),
                          frame example_runtime (String ''b'')]\<rparr>"
  have i1: "tcp_invariant ?t1" by code_simp
  have b1: "\<not> canAcceptData ?t1" by code_simp
  have r1: "length (queued ?t1) < maxBacklogSize ?t1" by code_simp
  have q1: "queued ?t1 = []" by code_simp
  have i2: "tcp_invariant ?t2" by code_simp
  have b2: "\<not> canAcceptData ?t2" by code_simp
  have r2: "\<not> length (queued ?t2) < maxBacklogSize ?t2" by code_simp
  from backpressured_send_bounded [OF i1 b1 refl, of example_runtime True "String ''a''"] r1
  have "TcpTransport_send ?t1 example_runtime True (String ''a'')
          = (?t1\<lparr>backlog := Some (queued ?t1 @ [frame example_runtime (String ''a'')])\<rparr>, [])"
    by blast
  then have a: "TcpTransport_send ?t1 example_runtime True (String ''a'')
          = (example_tcp\<lparr>canAcceptData := False,
                      backlog := Some [frame example_runtime (String ''a'')]\<rparr>, [])"
    by (simp add: q1)
  from backpressured_send_bounded [OF i2 b2 refl, of example_runtime True "String ''c''"] r2
  have b: "TcpTransport_send ?t2 example_runtime True (String ''c'')
          = (?t2, [Emit (Error ''too many messages buffered'')])" by blast
  show ?thesis using i1 b1 r1 a i2 b by blast
qed

theorem close_idempotent_witness:
  "udp_socket ((example_transport 13 True)\<lparr>udp_socket := None\<rparr>) = None
   \<and> UdpTransport_close ((example_transport 13 True)\<lparr>udp_socket := None\<rparr>)
       = ((example_transport 13 True)\<lparr>udp_socket := None\<rparr>, [])
   \<and> UdpTransport_constructor example_options (Some ())
       = Inr ((example_transport 1400 True)\<lparr>compression := ''zlib'', udp_socket := None\<rparr>)
   \<and> UdpTransport_close
         ((example_transport 1400 True)\<lparr>compression := ''zlib'', udp_socket := None\<rparr>)
       = ((example_transport 1400 True)\<lparr>compression := ''zlib'', udp_socket := None\<rparr>, [])
   \<and> TcpTransport_constructor example_options (Some ())
       = Inr (example_tcp\<lparr>maxBacklogSize := 1024, tcp_socket := None\<rparr>)
   \<and> TcpTransport_close (example_tcp\<lparr>maxBacklogSize := 1024, tcp_socket := None\<rparr>)
       = (example_tcp\<lparr>maxBacklogSize := 1024, tcp_socket := None, tcp_client := None\<rparr>, [])
   \<and> tcp_socket (example_tcp\<lparr>backlog := Some [frame example_runtime (String ''a'')]\<rparr>)
       \<noteq> None
   \<and> snd (TcpTransport_close
         (example_tcp\<lparr>backlog := Some [frame example_runtime (String ''a'')]\<rparr>))
       = [SocketEnd]
   \<and> backlog (fst (TcpTransport_close
         (example_tcp\<lparr>backlog := Some [frame example_runtime (String ''a'')]\<rparr>))) = None"
proof -
  let ?ua = "(example_transport 13 True)\<lparr>udp_socket := None\<rparr>"
  let ?ub = "(example_transport 1400 True)\<lparr>compression := ''zlib'', udp_socket := None\<rparr>"
  let ?ta = "example_tcp\<lparr>maxBacklogSize := 1024, tcp_socket := None\<rparr>"
  let ?tb = "example_tcp\<lparr>backlog := Some [frame example_runtime (String ''a'')]\<rparr>"
  have h1: "udp_socket ?ua = None" by code_simp
  have h2: "UdpTransport_constructor example_options (Some ()) = Inr ?ub"
    by (simp add: UdpTransport_constructor_def example_options_def with_default_def
        kDefaultBufSize_def kChunkHeaderSize_def supportedCompression_def
        example_transport_def)
  have h3: "TcpTransport_constructor example_options (Some ()) = Inr ?ta"
    by (simp add: TcpTransport_constructor_def example_options_def with_default_def
        example_tcp_def)
  have h4: "tcp_socket ?tb \<noteq> None" by code_simp
  have a: "UdpTransport_close ?ua = (?ua, [])"
    using close_idempotent [of ?ua example_tcp Undefined None] h1 by blast
  have b: "UdpTransport_close ?ub = (?ub, [])"
    using close_idempotent [of ?ub example_tcp example_options "Some ()"] h2 by blast
  have "TcpTransport_close ?ta = (?ta\<lparr>tcp_client := None\<rparr>, [])"
    using close_idempotent [of ?ub ?ta example_options "Some ()"] h3 by blast
  then have c: "TcpTransport_close ?ta
      = (example_tcp\<lparr>maxBacklogSize := 1024, tcp_socket := None, tcp_client := None\<rparr>, [])"
    by simp
  have d: "snd (TcpTransport_close ?tb) = [SocketEnd]
           \<and> backlog (fst (TcpTransport_close ?tb)) = None"
    using close_idempotent [of ?ua ?tb Undefined None] h4 by blast
  show ?thesis using h1 a h2 b h3 c h4 d by blast
qed

text \<open>
  Claim C10. \<^verbatim>\<open>GelfClient.close()\<close> is not idempotent. The first call on a client that
  holds a transport does not throw and leaves \<^verbatim>\<open>null\<close> in place of the transport; a second
  call then throws a \<^verbatim>\<open>TypeError\<close>, and so does every log call after \<^verbatim>\<open>close()\<close>,
  through \<^verbatim>\<open>log\<close> or through a level function, although closing the transport itself a
  second time does nothing.
\<close>

theorem client_close_not_idempotent:
  assumes "transport c = Some t"
  shows "thrown (snd (GelfClient_close c)) = []
       \<and> transport (fst (GelfClient_close c)) = None
       \<and> (\<exists>msg. snd (GelfClient_close (fst (GelfClient_close c))) = [Throws (TypeError msg)])
       \<and> (\<exists>msg. GelfClient_log (fst (GelfClient_close c)) rt short full additional ts level outcomes
                  = [Throws (TypeError msg)])
       \<and> (\<exists>msg. GelfClient_level lvl (fst (GelfClient_close c)) rt short full additional ts outcomes
                  = [Throws (TypeError msg)])
       \<and> snd (UdpTransport_close (fst (UdpTransport_close t))) = []"
proof -
  have a: "thrown (snd (GelfClient_close c)) = []"
    using assms by (cases "udp_socket t") (simp_all add: GelfClient_close_def UdpTransport_close_def)
  have b: "transport (fst (GelfClient_close c)) = None"
    using assms by (simp add: GelfClient_close_def)
  have c: "\<exists>msg. snd (GelfClient_close (fst (GelfClient_close c))) = [Throws (TypeError msg)]"
    using b by (simp add: GelfClient_close_def [of "fst (GelfClient_close c)"])
  have d: "\<exists>msg. GelfClient_log (fst (GelfClient_close c)) rt short full additional ts level outcomes
                  = [Throws (TypeError msg)]"
    using b by (simp add: GelfClient_log_def logFunction_def Let_def)
  have e: "\<exists>msg. GelfClient_level lvl (fst (GelfClient_close c)) rt short full additional ts outcomes
                  = [Throws (TypeError msg)]"
    using b by (simp add: GelfClient_level_def logFunction_def Let_def)
  have f: "snd (UdpTransport_close (fst (UdpTransport_close t))) = []"
    by (cases "udp_socket t") (simp_all add: UdpTransport_close_def)
  show ?thesis using a b c d e f by blast
qed

theorem client_close_not_idempotent_witness:
  "GelfClient_constructor example_runtime example_options = Inr example_client
   \<and> transport (fst (GelfClient_connect example_client))
       = Some ((example_transport 1400 True)\<lparr>compression := ''zlib''\<rparr>)
   \<and> snd (GelfClient_close (fst (GelfClient_connect example_client))) = [SocketClose]
   \<and> transport (fst (GelfClient_close (fst (GelfClient_connect example_client)))) = None
   \<and> snd (GelfClient_close (fst (GelfClient_close (fst (GelfClient_connect example_client)))))
       = [Throws (TypeError ''Cannot read property close of null'')]
   \<and> GelfClient_log (fst (GelfClient_close (fst (GelfClient_connect example_client))))
         example_runtime (String ''foo'') Undefined Undefined Undefined Undefined []
       = [Throws (TypeError ''Cannot read property send of null'')]"
proof -
  let ?c = "fst (GelfClient_connect example_client)"
  have u: "UdpTransport_constructor example_options (Some ())
             = Inr ((example_transport 1400 True)\<lparr>compression := ''zlib'', udp_socket := None\<rparr>)"
    by (simp add: UdpTransport_constructor_def example_options_def with_default_def
        kDefaultBufSize_def kChunkHeaderSize_def supportedCompression_def
        example_transport_def)
  have h0: "GelfClient_constructor example_runtime example_options = Inr example_client"
    by (simp add: GelfClient_constructor_def example_options_def with_default_def
        example_runtime_def supportedTransports_def kGelfVersion_def example_client_def
        u [unfolded example_options_def] Let_def)
  have h1: "transport ?c = Some ((example_transport 1400 True)\<lparr>compression := ''zlib''\<rparr>)"
    by (simp add: GelfClient_connect_def UdpTransport_connect_def example_client_def
        example_transport_def)
  have h2: "snd (GelfClient_close ?c) = [SocketClose]"
    by (simp add: h1 GelfClient_close_def UdpTransport_close_def example_transport_def)
  have h3: "snd (GelfClient_close (fst (GelfClient_close ?c)))
              = [Throws (TypeError ''Cannot read property close of null'')]"
    by (simp add: h1 GelfClient_close_def)
  have h4: "GelfClient_log (fst (GelfClient_close ?c))
         example_runtime (String ''foo'') Undefined Undefined Undefined Undefined []
       = [Throws (TypeError ''Cannot read property send of null'')]"
    by (simp add: h1 GelfClient_close_def GelfClient_log_def logFunction_def Let_def)
  from client_close_not_idempotent [OF h1]
  have "transport (fst (GelfClient_close ?c)) = None" by blast
  then show ?thesis using h0 h1 h2 h3 h4 by blast
qed

text \<open>
  Claim C9 does not hold of the code for the stream transport. The README names \<^verbatim>\<open>'udp'\<close>
  and \<^verbatim>\<open>'tcp'\<close> as the valid values of \<^verbatim>\<open>transport\<close>, and \<^verbatim>\<open>lib/tcp.js\<close> accepts the
  options below; the client's constructor knows \<^verbatim>\<open>'udp'\<close> only and throws for \<^verbatim>\<open>'tcp'\<close>.
  With \<^verbatim>\<open>'udp'\<close> (the default) it builds the datagram transport, and the log functions
  hand the composed message to that transport's \<^verbatim>\<open>send\<close>.
\<close>

theorem client_rejects_tcp:
  "GelfClient_constructor example_runtime example_tcp_options
     = Inl (Error ''unsupported transport: tcp'')
   \<and> TcpTransport_constructor example_tcp_options (Some ())
       = Inr (example_tcp\<lparr>maxBacklogSize := 1024, tcp_socket := None\<rparr>)
   \<and> GelfClient_constructor example_runtime example_options = Inr example_client
   \<and> logFunction (fst (GelfClient_connect example_client)) example_runtime (String ''foo'')
         Undefined Undefined Undefined Undefined []
       = fst (UdpTransport_send ((example_transport 1400 True)\<lparr>compression := ''zlib''\<rparr>)
                example_runtime
                (compose (fst (GelfClient_connect example_client)) example_runtime
                   (String ''foo'') Undefined Undefined Undefined Undefined) [])"
proof -
  have u: "UdpTransport_constructor example_options (Some ())
             = Inr ((example_transport 1400 True)\<lparr>compression := ''zlib'', udp_socket := None\<rparr>)"
    by (simp add: UdpTransport_constructor_def example_options_def with_default_def
        kDefaultBufSize_def kChunkHeaderSize_def supportedCompression_def
        example_transport_def)
  have a: "GelfClient_constructor example_runtime example_tcp_options
             = Inl (Error ''unsupported transport: tcp'')"
    by (simp add: GelfClient_constructor_def example_tcp_options_def with_default_def
        example_runtime_def supportedTransports_def kGelfVersion_def Let_def)
  have b: "TcpTransport_constructor example_tcp_options (Some ())
             = Inr (example_tcp\<lparr>maxBacklogSize := 1024, tcp_socket := None\<rparr>)"
    by (simp add: TcpTransport_constructor_def example_tcp_options_def with_default_def
        example_tcp_def)
  have c: "GelfClient_constructor example_runtime example_options = Inr example_client"
    by (simp add: GelfClient_constructor_def example_options_def with_default_def
        example_runtime_def supportedTransports_def kGelfVersion_def example_client_def
        u [unfolded example_options_def] Let_def)
  have d: "transport (fst (GelfClient_connect example_client))
             = Some ((example_transport 1400 True)\<lparr>compression := ''zlib''\<rparr>)"
    by (simp add: GelfClient_connect_def UdpTransport_connect_def example_client_def
        example_transport_def)
  have e: "logFunction (fst (GelfClient_connect example_client)) example_runtime (String ''foo'')
         Undefined Undefined Undefined Undefined []
       = fst (UdpTransport_send ((example_transport 1400 True)\<lparr>compression := ''zlib''\<rparr>)
                example_runtime
                (compose (fst (GelfClient_connect example_client)) example_runtime
                   (String ''foo'') Undefined Undefined Undefined Undefined) [])"
    by (simp add: logFunction_def d Let_def)
  show ?thesis using a b c e by blast
qed

text \<open>
  The states the theorems above start from are the states the constructors and
  \<^verbatim>\<open>connect()\<close> produce.
\<close>

lemma constructed_bufferSize:
  assumes "UdpTransport_constructor options client = Inr t"
  shows "kChunkHeaderSize < bufferSize t" and "udp_socket t = None" and "udp_client t = client"
    and "udp_socket (fst (UdpTransport_connect t)) = Some ()"
proof -
  obtain x where x: "\<not> js_le_const x (of_nat kChunkHeaderSize)" "isSafeInteger (Number x)"
      "bufferSize t = to_nat x"
    using assms
    by (auto simp: UdpTransport_constructor_def Let_def split: js_value.splits if_splits)
  obtain r where r: "x = Num r" "of_int \<lfloor>r\<rfloor> = r" "\<not> r \<le> of_nat kChunkHeaderSize"
      "bufferSize t = nat \<lfloor>r\<rfloor>"
    using x by (cases x) simp_all
  obtain n where n: "r = rat_of_int n" using r(2) by metis
  have "\<not> rat_of_int n \<le> rat_of_int 12" using r(3) n by (simp add: kChunkHeaderSize_def)
  then have "12 < n" by (simp only: of_int_le_iff not_le)
  then show "kChunkHeaderSize < bufferSize t" by (simp add: r(4) n kChunkHeaderSize_def)
  show "udp_socket t = None" and "udp_client t = client"
    using assms
    by (auto simp: UdpTransport_constructor_def Let_def
        split: js_value.splits js_number.splits if_splits)
  show "udp_socket (fst (UdpTransport_connect t)) = Some ()"
    by (simp add: UdpTransport_connect_def)
qed

lemma constructed_tcp_invariant:
  assumes "TcpTransport_constructor options (Some c) = Inr t"
  shows "tcp_invariant (fst (TcpTransport_connect t))"
  using assms
  by (auto simp: TcpTransport_constructor_def TcpTransport_connect_def tcp_invariant_def Let_def
      split: js_value.splits js_number.splits if_splits)

end
